theory Spec2Isabelle
  imports Main
begin

section \<open>Python values, exceptions and the outside world\<close>

text \<open>
  The orchestrator is Python. Its health-check records are plain dictionaries
  (\<^verbatim>\<open>list[dict]\<close>), so a record is an association list from keys to values and
  \<^verbatim>\<open>d.get(k)\<close> is \<open>map_of d k\<close>. Every exception the modelled code can meet is a
  subclass of Python's \<^verbatim>\<open>Exception\<close>; asynchronous interrupts
  (\<^verbatim>\<open>KeyboardInterrupt\<close>, \<^verbatim>\<open>SystemExit\<close>) are outside the model.
\<close>

datatype pyval = VStr string | VInt int

datatype exn =
    KeyError string
  | ValueError
  | ParseError
  | Timeout
  | ConnectionRefused
  | DNSFailure
  | OtherError string

type_synonym check = "(string \<times> pyval) list"

text \<open>
  The trace records what the poller does: the evaluation of a check together
  with its result, and every completed sleep with its length.
\<close>

datatype event = Probe check bool | Sleep int

text \<open>
  Time is the reading of \<^verbatim>\<open>time.time()\<close>, in whole clock ticks. Only probes and
  sleeps let time pass; a sleep lasts exactly as long as requested.
\<close>

record world =
  now :: int
  events :: "event list"

text \<open>
  The network is a parameter. \<open>requests_get net t url\<close> is what
  \<^verbatim>\<open>requests.get(url, timeout=5)\<close> does when called at time \<open>t\<close>: it raises or
  returns a response with a status code, after some latency.
  \<open>connect_ex net t host port\<close> is the same for
  \<^verbatim>\<open>sock.connect_ex((host, port))\<close>, which returns an error number.
\<close>

record net =
  requests_get :: "int \<Rightarrow> pyval \<Rightarrow> (exn + int) \<times> nat"
  connect_ex :: "int \<Rightarrow> pyval \<Rightarrow> pyval \<Rightarrow> (exn + int) \<times> nat"

definition advance :: "nat \<Rightarrow> world \<Rightarrow> world" where
  "advance d w = w\<lparr>now := now w + int d\<rparr>"

definition log_event :: "event \<Rightarrow> world \<Rightarrow> world" where
  "log_event e w = w\<lparr>events := events w @ [e]\<rparr>"

section \<open>docker\_runner.py: the health-check evaluator\<close>

text \<open>
  \<^verbatim>\<open>DockerRunner._check_http\<close>: the body of the \<^verbatim>\<open>try\<close> block. A missing
  \<^verbatim>\<open>"url"\<close> key raises \<^verbatim>\<open>KeyError\<close> inside the block.
\<close>

definition check_http_try :: "net \<Rightarrow> check \<Rightarrow> world \<Rightarrow> (exn + bool) \<times> world" where
  "check_http_try net c w =
     (case map_of c ''url'' of
        None \<Rightarrow> (Inl (KeyError ''url''), w)
      | Some url \<Rightarrow>
          (case requests_get net (now w) url of
             (Inl e, d) \<Rightarrow> (Inl e, advance d w)
           | (Inr status_code, d) \<Rightarrow>
               (let expected = (case map_of c ''expected_status'' of
                                  None \<Rightarrow> VInt 200 | Some v \<Rightarrow> v)
                in (Inr (VInt status_code = expected), advance d w))))"

text \<open>\<^verbatim>\<open>except Exception: return False\<close>\<close>

definition check_http :: "net \<Rightarrow> check \<Rightarrow> world \<Rightarrow> (exn + bool) \<times> world" where
  "check_http net c w =
     (case check_http_try net c w of
        (Inl e, w') \<Rightarrow> (Inr False, w')
      | (Inr b, w') \<Rightarrow> (Inr b, w'))"

text \<open>\<^verbatim>\<open>DockerRunner._check_tcp\<close>, in the same two steps.\<close>

definition check_tcp_try :: "net \<Rightarrow> check \<Rightarrow> world \<Rightarrow> (exn + bool) \<times> world" where
  "check_tcp_try net c w =
     (case map_of c ''host'' of
        None \<Rightarrow> (Inl (KeyError ''host''), w)
      | Some host \<Rightarrow>
          (case map_of c ''port'' of
             None \<Rightarrow> (Inl (KeyError ''port''), w)
           | Some port \<Rightarrow>
               (case connect_ex net (now w) host port of
                  (Inl e, d) \<Rightarrow> (Inl e, advance d w)
                | (Inr result, d) \<Rightarrow> (Inr (result = 0), advance d w))))"

definition check_tcp :: "net \<Rightarrow> check \<Rightarrow> world \<Rightarrow> (exn + bool) \<times> world" where
  "check_tcp net c w =
     (case check_tcp_try net c w of
        (Inl e, w') \<Rightarrow> (Inr False, w')
      | (Inr b, w') \<Rightarrow> (Inr b, w'))"

section \<open>docker\_runner.py: the readiness poller\<close>

text \<open>
  One round of \<^verbatim>\<open>wait_for_health\<close>: the \<^verbatim>\<open>for check in health_checks\<close> loop with
  its \<^verbatim>\<open>break\<close>. The result is \<^verbatim>\<open>all_passed\<close>. A record whose \<^verbatim>\<open>type\<close> is
  neither \<^verbatim>\<open>"http"\<close> nor \<^verbatim>\<open>"tcp"\<close> falls through both branches.
\<close>

fun run_round :: "net \<Rightarrow> check list \<Rightarrow> world \<Rightarrow> (exn + bool) \<times> world" where
  "run_round net [] w = (Inr True, w)"
| "run_round net (c # cs) w =
     (if map_of c ''type'' = Some (VStr ''http'') then
        (case check_http net c w of
           (Inl e, w') \<Rightarrow> (Inl e, w')
         | (Inr ok, w') \<Rightarrow>
             (if \<not> ok then (Inr False, log_event (Probe c False) w')
              else run_round net cs (log_event (Probe c True) w')))
      else if map_of c ''type'' = Some (VStr ''tcp'') then
        (case check_tcp net c w of
           (Inl e, w') \<Rightarrow> (Inl e, w')
         | (Inr ok, w') \<Rightarrow>
             (if \<not> ok then (Inr False, log_event (Probe c False) w')
              else run_round net cs (log_event (Probe c True) w')))
      else run_round net cs w)"

text \<open>\<^verbatim>\<open>time.sleep(interval)\<close> raises \<^verbatim>\<open>ValueError\<close> on a negative length.\<close>

definition time_sleep :: "int \<Rightarrow> world \<Rightarrow> (exn + unit) \<times> world" where
  "time_sleep secs w =
     (if secs < 0 then (Inl ValueError, w)
      else (Inr (), log_event (Sleep secs) (w\<lparr>now := now w + secs\<rparr>)))"

text \<open>
  The \<^verbatim>\<open>while time.time() - start_time < timeout\<close> loop. In this model only
  probes and sleeps take time, so with a zero interval and probes that fail at
  once the clock stands still and the loop does not end; the result is an
  option, and \<open>None\<close> is a run that never returns.
\<close>

partial_function (option) wait_loop ::
  "net \<Rightarrow> check list \<Rightarrow> int \<Rightarrow> int \<Rightarrow> int \<Rightarrow> world \<Rightarrow> ((exn + bool) \<times> world) option" where
  "wait_loop net health_checks timeout interval start_time w =
     (if now w - start_time < timeout then
        (case run_round net health_checks w of
           (Inl e, w1) \<Rightarrow> Some (Inl e, w1)
         | (Inr all_passed, w1) \<Rightarrow>
             (if all_passed then Some (Inr True, w1)
              else (case time_sleep interval w1 of
                      (Inl e, w2) \<Rightarrow> Some (Inl e, w2)
                    | (Inr u, w2) \<Rightarrow>
                        wait_loop net health_checks timeout interval start_time w2)))
      else Some (Inr False, w))"

definition wait_for_health ::
  "net \<Rightarrow> check list \<Rightarrow> int \<Rightarrow> int \<Rightarrow> world \<Rightarrow> ((exn + bool) \<times> world) option" where
  "wait_for_health net health_checks timeout interval w =
     wait_loop net health_checks timeout interval (now w) w"

section \<open>reporter.py: the report builder\<close>

text \<open>
  An \<^verbatim>\<open>xml.etree.ElementTree.Element\<close>: tag, attribute dictionary, children in
  document order. \<^verbatim>\<open>e.find(t)\<close> is the first child with tag \<open>t\<close>,
  \<^verbatim>\<open>e.findall(t)\<close> all of them, and an element with no children is false in a
  boolean context (\<^verbatim>\<open>Element.__bool__\<close> is \<^verbatim>\<open>len(e) != 0\<close>).
\<close>

datatype xml = Element (tag: string) (attrib: "(string \<times> string) list") (children: "xml list")

definition find_child :: "xml \<Rightarrow> string \<Rightarrow> xml option" where
  "find_child e t = List.find (\<lambda>c. tag c = t) (children e)"

definition findall :: "xml \<Rightarrow> string \<Rightarrow> xml list" where
  "findall e t = filter (\<lambda>c. tag c = t) (children e)"

definition truthy :: "xml \<Rightarrow> bool" where
  "truthy e = (children e \<noteq> [])"

text \<open>
  Python's \<^verbatim>\<open>int(s)\<close> on a string, base 10, for ASCII text: surrounding
  whitespace (space, tab, line feed, vertical tab, form feed, carriage return)
  is stripped, one sign is allowed, digits may be separated by single
  underscores, and more than 4300 digits are refused. Anything else raises
  \<^verbatim>\<open>ValueError\<close>.
\<close>

definition is_space :: "char \<Rightarrow> bool" where
  "is_space c = (let n = (of_char c :: nat) in n = 32 \<or> (9 \<le> n \<and> n \<le> 13))"

definition is_digit :: "char \<Rightarrow> bool" where
  "is_digit c = (let n = (of_char c :: nat) in 48 \<le> n \<and> n \<le> 57)"

definition digit_val :: "char \<Rightarrow> int" where
  "digit_val c = int (of_char c) - 48"

definition strip :: "string \<Rightarrow> string" where
  "strip s = rev (dropWhile is_space (rev (dropWhile is_space s)))"

fun digits_value :: "int \<Rightarrow> bool \<Rightarrow> string \<Rightarrow> int option" where
  "digits_value acc prev_digit [] = (if prev_digit then Some acc else None)"
| "digits_value acc prev_digit (c # cs) =
     (if is_digit c then digits_value (10 * acc + digit_val c) True cs
      else if c = CHR ''_'' \<and> prev_digit then digits_value acc False cs
      else None)"

definition py_int :: "string \<Rightarrow> exn + int" where
  "py_int s =
     (let t = strip s;
          (negative, body) =
            (case t of
               [] \<Rightarrow> (False, [])
             | c # cs \<Rightarrow>
                 if c = CHR ''-'' then (True, cs)
                 else if c = CHR ''+'' then (False, cs)
                 else (False, t))
      in if 4300 < length (filter is_digit body) then Inl ValueError
         else (case digits_value 0 False body of
                 None \<Rightarrow> Inl ValueError
               | Some n \<Rightarrow> Inr (if negative then - n else n)))"

text \<open>\<^verbatim>\<open>int(testsuite.get(key, 0))\<close>\<close>

definition int_attr :: "xml \<Rightarrow> string \<Rightarrow> exn + int" where
  "int_attr e key = (case map_of (attrib e) key of None \<Rightarrow> Inr 0 | Some s \<Rightarrow> py_int s)"

text \<open>An f-string prints a missing attribute (\<^verbatim>\<open>None\<close>) as the text \<^verbatim>\<open>None\<close>.\<close>

definition fmt :: "string option \<Rightarrow> string" where
  "fmt v = (case v of None \<Rightarrow> ''None'' | Some s \<Rightarrow> s)"

record failure_entry =
  name :: string
  reason :: string

record test_results =
  total :: int
  passed :: int
  failed :: int
  failures :: "failure_entry list"

text \<open>
  The state of \<^verbatim>\<open>reports/junit.xml\<close>: no such file, a file \<^verbatim>\<open>ET.parse\<close>
  rejects, or a parsed document with its root element.
\<close>

datatype junit_file = Absent | Malformed | Document xml

text \<open>\<^verbatim>\<open>testsuite = root.find("testsuite") or root\<close>\<close>

definition select_testsuite :: "xml \<Rightarrow> xml" where
  "select_testsuite root =
     (case find_child root ''testsuite'' of
        None \<Rightarrow> root
      | Some ts \<Rightarrow> if truthy ts then ts else root)"

text \<open>The body of the \<^verbatim>\<open>for testcase in testsuite.findall("testcase")\<close> loop.\<close>

definition failure_of :: "xml \<Rightarrow> failure_entry option" where
  "failure_of testcase =
     (let failure = find_child testcase ''failure'';
          error = find_child testcase ''error''
      in if failure \<noteq> None \<or> error \<noteq> None then
           (let elem = (if failure \<noteq> None then failure else error)
            in Some \<lparr>name = fmt (map_of (attrib testcase) ''classname'') @ ''.'' @
                              fmt (map_of (attrib testcase) ''name''),
                     reason = (case elem of
                                 Some el \<Rightarrow>
                                   take 200 (case map_of (attrib el) ''message'' of
                                               None \<Rightarrow> [] | Some m \<Rightarrow> m)
                               | None \<Rightarrow> [])\<rparr>)
         else None)"

definition parse_junit_xml :: "junit_file \<Rightarrow> exn + test_results" where
  "parse_junit_xml f =
     (case f of
        Absent \<Rightarrow> Inr \<lparr>total = 0, passed = 0, failed = 0, failures = []\<rparr>
      | Malformed \<Rightarrow> Inl ParseError
      | Document root \<Rightarrow>
          (let testsuite = select_testsuite root in
           case int_attr testsuite ''tests'' of
             Inl e \<Rightarrow> Inl e
           | Inr total' \<Rightarrow>
               (case int_attr testsuite ''failures'' of
                  Inl e \<Rightarrow> Inl e
                | Inr failures_count \<Rightarrow>
                    (case int_attr testsuite ''errors'' of
                       Inl e \<Rightarrow> Inl e
                     | Inr errors_count \<Rightarrow>
                         Inr \<lparr>total = total',
                              passed = total' - failures_count - errors_count,
                              failed = failures_count + errors_count,
                              failures = List.map_filter failure_of
                                           (findall testsuite ''testcase'')\<rparr>))))"

text \<open>
  The reporter's phase stamps are readings of \<^verbatim>\<open>datetime.now()\<close>, in
  microseconds; a difference of two stamps is the \<^verbatim>\<open>timedelta\<close> whose
  \<^verbatim>\<open>total_seconds()\<close> the summary stores. \<^verbatim>\<open>None\<close> is JSON's \<^verbatim>\<open>null\<close>.
\<close>

record reporter =
  start_time :: "int option"
  env_ready_time :: "int option"
  test_end_time :: "int option"

record summary =
  timestamp :: "int option"
  exit_code :: int
  environment_bring_up_time_seconds :: "int option"
  test_runtime_seconds :: "int option"
  results :: test_results

definition total_tests :: "summary \<Rightarrow> int" where
  "total_tests s = total (results s)"

definition new_reporter :: reporter where
  "new_reporter = \<lparr>start_time = None, env_ready_time = None, test_end_time = None\<rparr>"

definition mark_start :: "int \<Rightarrow> reporter \<Rightarrow> reporter" where
  "mark_start t r = r\<lparr>start_time := Some t\<rparr>"

definition mark_env_ready :: "int \<Rightarrow> reporter \<Rightarrow> reporter" where
  "mark_env_ready t r = r\<lparr>env_ready_time := Some t\<rparr>"

definition mark_test_end :: "int \<Rightarrow> reporter \<Rightarrow> reporter" where
  "mark_test_end t r = r\<lparr>test_end_time := Some t\<rparr>"

definition generate_summary :: "reporter \<Rightarrow> junit_file \<Rightarrow> int \<Rightarrow> exn + summary" where
  "generate_summary r f code =
     (case parse_junit_xml f of
        Inl e \<Rightarrow> Inl e
      | Inr test_results \<Rightarrow>
          (let env_time =
                 (case (start_time r, env_ready_time r) of
                    (Some t0, Some t1) \<Rightarrow> Some (t1 - t0) | _ \<Rightarrow> None);
               test_time =
                 (case (env_ready_time r, test_end_time r) of
                    (Some t1, Some t2) \<Rightarrow> Some (t2 - t1) | _ \<Rightarrow> None)
           in Inr \<lparr>timestamp = start_time r,
                   exit_code = code,
                   environment_bring_up_time_seconds = env_time,
                   test_runtime_seconds = test_time,
                   results = test_results\<rparr>))"

section \<open>cli.py: the full run workflow\<close>

datatype collect_mode = OnFail | Always

record artifact_config =
  collect :: collect_mode

record spec_config =
  compose_file :: string
  services :: "string list option"
  artifacts :: artifact_config

text \<open>
  What the external collaborators do during one run: the return codes of the
  backend's playbooks and of the test engine, the result file as it is when the
  run starts and as the test engine leaves it, and the three clock readings.
  Starting a process and writing the summary file are taken to succeed; the
  playbooks leave the result file alone.
\<close>

record ext =
  up_exit :: int
  test_exit :: int
  collect_exit :: int
  down_exit :: int
  junit_at_start :: junit_file
  junit_after_tests :: junit_file
  clock :: "nat \<Rightarrow> int"

text \<open>
  The calls \<^verbatim>\<open>run\<close> makes, in order. A backend call carries the return code the
  backend gave; \<^verbatim>\<open>run\<close> ignores those of \<^verbatim>\<open>collect_artifacts\<close> and \<^verbatim>\<open>down\<close>.
\<close>

datatype action =
    Up int
  | RunTests int
  | CollectArtifacts int
  | WriteSummary summary
  | Down int

text \<open>
  \<^verbatim>\<open>run\<close> in \<^verbatim>\<open>cli.py\<close>. The result is the code given to \<^verbatim>\<open>sys.exit\<close>, or the
  exception that leaves \<^verbatim>\<open>run\<close> when the summary cannot be generated, with the
  calls made up to that point.
\<close>

definition run :: "ext \<Rightarrow> spec_config \<Rightarrow> bool \<Rightarrow> (exn + int) \<times> action list" where
  "run x config keep_on_fail =
     (let reporter = mark_start (clock x 0) new_reporter;
          up_exit = up_exit x
      in if up_exit \<noteq> 0 then
           (let final_exit_code = 2;
                acts = [Up up_exit, CollectArtifacts (collect_exit x)]
            in case generate_summary reporter (junit_at_start x) final_exit_code of
                 Inl e \<Rightarrow> (Inl e, acts)
               | Inr s \<Rightarrow>
                   (Inr final_exit_code,
                    acts @ [WriteSummary s] @
                      (if \<not> keep_on_fail then [Down (down_exit x)] else [])))
         else
           (let reporter = mark_env_ready (clock x 1) reporter;
                test_exit = test_exit x;
                reporter = mark_test_end (clock x 2) reporter;
                final_exit_code = (if test_exit \<noteq> 0 then 1 else 0);
                should_teardown = (if test_exit \<noteq> 0 \<and> keep_on_fail then False else True);
                collect_mode = collect (artifacts config);
                acts = [Up up_exit, RunTests test_exit] @
                       (if final_exit_code \<noteq> 0 \<or> collect_mode = Always
                        then [CollectArtifacts (collect_exit x)] else [])
            in case generate_summary reporter (junit_after_tests x) final_exit_code of
                 Inl e \<Rightarrow> (Inl e, acts)
               | Inr s \<Rightarrow>
                   (Inr final_exit_code,
                    acts @ [WriteSummary s] @
                      (if should_teardown then [Down (down_exit x)] else []))))"

section \<open>The shape of a poller trace\<close>

text \<open>
  The poller only looks at records of type \<^verbatim>\<open>"http"\<close> or \<^verbatim>\<open>"tcp"\<close>.
\<close>

definition recognised :: "check \<Rightarrow> bool" where
  "recognised c = (map_of c ''type'' = Some (VStr ''http'') \<or> map_of c ''type'' = Some (VStr ''tcp''))"

text \<open>
  What the specification says a call of the poller does, as a check on the trace
  it leaves. \<open>rcs\<close> are the checks of one round, \<open>pending\<close> those the current round
  still has to evaluate. A round evaluates its checks in list order; a passing
  probe moves on to the next check; a failing probe ends the round, and is
  followed by a sleep of exactly \<open>interval\<close> and a fresh round, unless the sleep
  itself raises because \<open>interval\<close> is negative. The trace ends after a round in
  which every check passed (result \<open>True\<close>, no sleep after it), or at the start of
  a round when the deadline has passed (result \<open>False\<close>).
\<close>

fun poll_trace :: "check list \<Rightarrow> int \<Rightarrow> (exn + bool) \<Rightarrow> check list \<Rightarrow> event list \<Rightarrow> bool" where
  "poll_trace rcs interval res pending [] =
     ((pending = [] \<and> res = Inr True) \<or> (pending = rcs \<and> res = Inr False))"
| "poll_trace rcs interval res pending (Sleep d # es) = False"
| "poll_trace rcs interval res pending (Probe c r # es) =
     (case pending of
        [] \<Rightarrow> False
      | p # ps \<Rightarrow>
          c = p \<and>
          (if r then poll_trace rcs interval res ps es
           else (case es of
                   [] \<Rightarrow> interval < 0 \<and> res = Inl ValueError
                 | Sleep d # es' \<Rightarrow> d = interval \<and> 0 \<le> interval \<and> poll_trace rcs interval res rcs es'
                 | Probe c' r' # es' \<Rightarrow> False)))"

text \<open>What must follow a failing probe.\<close>

definition after_failed_round :: "check list \<Rightarrow> int \<Rightarrow> (exn + bool) \<Rightarrow> event list \<Rightarrow> bool" where
  "after_failed_round rcs interval res es =
     (case es of
        [] \<Rightarrow> interval < 0 \<and> res = Inl ValueError
      | Sleep d # es' \<Rightarrow> d = interval \<and> 0 \<le> interval \<and> poll_trace rcs interval res rcs es'
      | Probe c' r' # es' \<Rightarrow> False)"


section \<open>Concrete inputs\<close>

text \<open>A network on which every request times out and no host name resolves.\<close>

definition net_down :: net where
  "net_down = \<lparr>requests_get = (\<lambda>t url. (Inl Timeout, 5)),
               connect_ex = (\<lambda>t host port. (Inl DNSFailure, 0))\<rparr>"

definition http_check :: check where
  "http_check = [(''type'', VStr ''http''), (''url'', VStr ''http://api:8000/health'')]"

definition tcp_check :: check where
  "tcp_check = [(''type'', VStr ''tcp''), (''host'', VStr ''db''), (''port'', VInt 5432)]"

definition w0 :: world where
  "w0 = \<lparr>now = 0, events = []\<rparr>"

text \<open>
  A network whose HTTP endpoint answers 200 at once and whose TCP port refuses
  connections (error 111) before time 12 and accepts them from then on.
\<close>

definition net_late :: net where
  "net_late = \<lparr>requests_get = (\<lambda>t url. (Inr 200, 0)),
               connect_ex = (\<lambda>t host port. (Inr (if t < 12 then 111 else 0), 0))\<rparr>"

definition w12 :: world where
  "w12 = \<lparr>now = 12, events = []\<rparr>"

text \<open>A network whose TCP port refuses every connection, after 3 time units.\<close>

definition net_slow :: net where
  "net_slow = \<lparr>requests_get = (\<lambda>t url. (Inl Timeout, 5)),
               connect_ex = (\<lambda>t host port. (Inr 111, 3))\<rparr>"

text \<open>
  The TCP port of \<open>net_late\<close>, refusing connections before time 12, with an
  arbitrary latency for the attempt made at each time.
\<close>

definition net_late_lat :: "(int \<Rightarrow> nat) \<Rightarrow> net" where
  "net_late_lat lat = \<lparr>requests_get = (\<lambda>t url. (Inr 200, 0)),
               connect_ex = (\<lambda>t host port. (Inr (if t < 12 then 111 else 0), lat t))\<rparr>"

text \<open>A record of a type the poller does not know.\<close>

definition grpc_check :: check where
  "grpc_check = [(''type'', VStr ''grpc''), (''host'', VStr ''db''), (''port'', VInt 5432)]"

text \<open>
  Two result files. The first is a \<^verbatim>\<open>testsuites\<close> root whose only
  \<^verbatim>\<open>testsuite\<close> carries the counts 5/1/0 and has no \<^verbatim>\<open>testcase\<close> children; the
  second is a report as pytest writes it, with five test cases, one of them
  failed.
\<close>

definition childless_suite :: xml where
  "childless_suite =
     Element ''testsuites'' []
       [Element ''testsuite'' [(''tests'', ''5''), (''failures'', ''1''), (''errors'', ''0'')] []]"

definition pytest_report :: xml where
  "pytest_report =
     Element ''testsuites'' []
       [Element ''testsuite''
          [(''name'', ''pytest''), (''errors'', ''0''), (''failures'', ''1''),
           (''skipped'', ''0''), (''tests'', ''5'')]
          [Element ''testcase'' [(''classname'', ''tests.test_health''), (''name'', ''test_health'')] [],
           Element ''testcase'' [(''classname'', ''tests.test_crud''), (''name'', ''test_create'')] [],
           Element ''testcase'' [(''classname'', ''tests.test_crud''), (''name'', ''test_read'')] [],
           Element ''testcase'' [(''classname'', ''tests.test_crud''), (''name'', ''test_update'')]
             [Element ''failure'' [(''message'', ''assert 500 == 200'')] []],
           Element ''testcase'' [(''classname'', ''tests.test_crud''), (''name'', ''test_delete'')] []]]"

text \<open>Runs of the workflow: what the collaborators return in each.\<close>

definition fresh_clock :: "nat \<Rightarrow> int" where
  "fresh_clock k = 1000000 * int k"

definition ext_env_failed :: ext where
  "ext_env_failed = \<lparr>up_exit = 1, test_exit = 0, collect_exit = 0, down_exit = 0,
     junit_at_start = Absent, junit_after_tests = Absent, clock = fresh_clock\<rparr>"

definition ext_env_failed_stale :: ext where
  "ext_env_failed_stale = ext_env_failed\<lparr>junit_at_start := Document pytest_report\<rparr>"

definition ext_tests_failed :: ext where
  "ext_tests_failed = \<lparr>up_exit = 0, test_exit = 1, collect_exit = 0, down_exit = 0,
     junit_at_start = Absent, junit_after_tests = Document pytest_report, clock = fresh_clock\<rparr>"

text \<open>A run whose test engine leaves a result file that does not parse.\<close>

definition ext_malformed :: ext where
  "ext_malformed = \<lparr>up_exit = 0, test_exit = 1, collect_exit = 0, down_exit = 0,
     junit_at_start = Absent, junit_after_tests = Malformed, clock = fresh_clock\<rparr>"

definition ext_tests_passed :: ext where
  "ext_tests_passed = \<lparr>up_exit = 0, test_exit = 0, collect_exit = 0, down_exit = 2,
     junit_at_start = Absent, junit_after_tests = Absent, clock = fresh_clock\<rparr>"

definition config_on_fail :: spec_config where
  "config_on_fail = \<lparr>compose_file = ''docker-compose.yml'', services = None,
     artifacts = \<lparr>collect = OnFail\<rparr>\<rparr>"

definition config_always :: spec_config where
  "config_always = \<lparr>compose_file = ''docker-compose.yml'', services = None,
     artifacts = \<lparr>collect = Always\<rparr>\<rparr>"

definition summary_tests_failed :: summary where
  "summary_tests_failed =
     \<lparr>timestamp = Some 0, exit_code = 1,
      environment_bring_up_time_seconds = Some 1000000,
      test_runtime_seconds = Some 1000000,
      results = \<lparr>total = 5, passed = 4, failed = 1,
        failures = [\<lparr>name = ''tests.test_crud.test_update'', reason = ''assert 500 == 200''\<rparr>]\<rparr>\<rparr>"

definition summary_tests_passed :: summary where
  "summary_tests_passed =
     \<lparr>timestamp = Some 0, exit_code = 0,
      environment_bring_up_time_seconds = Some 1000000,
      test_runtime_seconds = Some 1000000,
      results = \<lparr>total = 0, passed = 0, failed = 0, failures = []\<rparr>\<rparr>"

section \<open>ansible\_runner.py and docker\_runner.py: the two backends\<close>

text \<open>
  The methods each backend class defines, with the names of their parameters
  (after \<^verbatim>\<open>self\<close>) and the type they return.
\<close>

datatype backend = AnsibleRunner | DockerRunner

datatype rtype = RInt | RStr | RBool | RNone | RPath | RProcess

definition methods :: "backend \<Rightarrow> (string \<times> string list \<times> rtype) list" where
  "methods b =
     (case b of
        AnsibleRunner \<Rightarrow>
          [(''_find_playbooks_dir'', [], RPath),
           (''_resolve_path'', [''path''], RStr),
           (''run_playbook'', [''playbook'', ''extra_vars'', ''verbose''], RInt),
           (''up'', [''compose_file'', ''run_id'', ''health_checks'', ''timeout_secs'', ''env_file''], RInt),
           (''down'', [''compose_file'', ''run_id'', ''remove_volumes''], RInt),
           (''collect_artifacts'', [''compose_file'', ''run_id'', ''artifacts_dir'', ''services''], RInt),
           (''status'', [''compose_file''], RInt)]
      | DockerRunner \<Rightarrow>
          [(''_run_compose'', [''args'', ''capture''], RProcess),
           (''up'', [], RInt),
           (''down'', [''remove_volumes''], RInt),
           (''ps'', [], RStr),
           (''logs'', [''service''], RStr),
           (''wait_for_health'', [''health_checks'', ''timeout'', ''interval''], RBool),
           (''_check_http'', [''check''], RBool),
           (''_check_tcp'', [''check''], RBool),
           (''collect_artifacts'', [''artifacts_dir'', ''services''], RNone)])"

text \<open>A backend provides an operation when its class defines a method of that name.\<close>

definition provides :: "backend \<Rightarrow> string \<Rightarrow> bool" where
  "provides b m = (map_of (methods b) m \<noteq> None)"

text \<open>The capability set of the specification's environment controller.\<close>

definition capabilities :: "string list" where
  "capabilities = [''up'', ''down'', ''status'', ''logs'', ''collect_artifacts'']"

text \<open>The parameters and the result type of a method, when the class defines it.\<close>

definition parameters :: "backend \<Rightarrow> string \<Rightarrow> string list option" where
  "parameters b m = map_option fst (map_of (methods b) m)"

definition returns :: "backend \<Rightarrow> string \<Rightarrow> rtype option" where
  "returns b m = map_option snd (map_of (methods b) m)"

section \<open>Lemmas about the evaluator and the poller\<close>

lemma advance_zero: "advance 0 w = w"
  by (simp add: advance_def)

lemma check_http_shape: "\<exists>b d. check_http net c w = (Inr b, advance d w)"
proof (cases "map_of c ''url''")
  case None
  then have "check_http net c w = (Inr False, advance 0 w)"
    by (simp add: check_http_def check_http_try_def advance_zero)
  then show ?thesis by blast
next
  case (Some url)
  obtain r d where rd: "requests_get net (now w) url = (r, d)"
    by (cases "requests_get net (now w) url")
  show ?thesis using Some rd
    by (cases r) (auto simp add: check_http_def check_http_try_def Let_def)
qed

lemma check_tcp_shape: "\<exists>b d. check_tcp net c w = (Inr b, advance d w)"
proof (cases "map_of c ''host''")
  case None
  then have "check_tcp net c w = (Inr False, advance 0 w)"
    by (simp add: check_tcp_def check_tcp_try_def advance_zero)
  then show ?thesis by blast
next
  case (Some host) note h = this
  show ?thesis
  proof (cases "map_of c ''port''")
    case None
    with h have "check_tcp net c w = (Inr False, advance 0 w)"
      by (simp add: check_tcp_def check_tcp_try_def advance_zero)
    then show ?thesis by blast
  next
    case (Some port)
    obtain r d where rd: "connect_ex net (now w) host port = (r, d)"
      by (cases "connect_ex net (now w) host port")
    show ?thesis using h Some rd
      by (cases r) (auto simp add: check_tcp_def check_tcp_try_def)
  qed
qed


lemma events_advance [simp]: "events (advance d w) = events w"
  by (simp add: advance_def)

lemma now_advance [simp]: "now (advance d w) = now w + int d"
  by (simp add: advance_def)

lemma events_log [simp]: "events (log_event e w) = events w @ [e]"
  by (simp add: log_event_def)

lemma now_log [simp]: "now (log_event e w) = now w"
  by (simp add: log_event_def)

lemma poll_trace_Probe:
  "poll_trace rcs i r (c # ps) (Probe c b # es) =
     (if b then poll_trace rcs i r ps es else after_failed_round rcs i r es)"
  by (simp add: after_failed_round_def)

lemma run_round_trace:
  "\<exists>ok w' tr. run_round net cs w = (Inr ok, w') \<and> events w' = events w @ tr \<and> now w \<le> now w' \<and>
     (\<forall>rcs i r pend rest.
        poll_trace rcs i r (filter recognised cs @ pend) (tr @ rest) =
          (if ok then poll_trace rcs i r pend rest else after_failed_round rcs i r rest))"
proof (induction cs arbitrary: w)
  case Nil
  show ?case by (intro exI [of _ True] exI [of _ w] exI [of _ "[]"]) simp
next
  case (Cons c cs)
  show ?case
  proof (cases "map_of c ''type'' = Some (VStr ''http'')")
    case True
    obtain b d where cb: "check_http net c w = (Inr b, advance d w)"
      using check_http_shape by blast
    show ?thesis
    proof (cases b)
      case False
      have "run_round net (c # cs) w = (Inr False, log_event (Probe c False) (advance d w))"
        using True cb False by simp
      moreover have "\<forall>rcs i r pend rest.
          poll_trace rcs i r (filter recognised (c # cs) @ pend) ([Probe c False] @ rest) =
            after_failed_round rcs i r rest"
        using True by (simp add: recognised_def poll_trace_Probe del: poll_trace.simps)
      ultimately show ?thesis
        by (intro exI [of _ False] exI [of _ "log_event (Probe c False) (advance d w)"]
              exI [of _ "[Probe c False]"]) simp
    next
      case b: True
      let ?w1 = "log_event (Probe c True) (advance d w)"
      from Cons.IH [of ?w1] obtain ok w' tr where
        r: "run_round net cs ?w1 = (Inr ok, w')" and
        e: "events w' = events ?w1 @ tr" and
        n: "now ?w1 \<le> now w'" and
        p: "\<forall>rcs i r pend rest.
              poll_trace rcs i r (filter recognised cs @ pend) (tr @ rest) =
                (if ok then poll_trace rcs i r pend rest else after_failed_round rcs i r rest)"
        by blast
      have "run_round net (c # cs) w = (Inr ok, w')"
        using True cb b r by simp
      moreover have "events w' = events w @ (Probe c True # tr)" using e by simp
      moreover have "now w \<le> now w'" using n by simp
      moreover have "\<forall>rcs i r pend rest.
          poll_trace rcs i r (filter recognised (c # cs) @ pend) ((Probe c True # tr) @ rest) =
            (if ok then poll_trace rcs i r pend rest else after_failed_round rcs i r rest)"
        using True p by (simp add: recognised_def poll_trace_Probe del: poll_trace.simps)
      ultimately show ?thesis by blast
    qed
  next
    case nh: False
    show ?thesis
    proof (cases "map_of c ''type'' = Some (VStr ''tcp'')")
      case True
      obtain b d where cb: "check_tcp net c w = (Inr b, advance d w)"
        using check_tcp_shape by blast
      show ?thesis
      proof (cases b)
        case False
        have "run_round net (c # cs) w = (Inr False, log_event (Probe c False) (advance d w))"
          using nh True cb False by simp
        moreover have "\<forall>rcs i r pend rest.
            poll_trace rcs i r (filter recognised (c # cs) @ pend) ([Probe c False] @ rest) =
              after_failed_round rcs i r rest"
          using True by (simp add: recognised_def poll_trace_Probe del: poll_trace.simps)
        ultimately show ?thesis
          by (intro exI [of _ False] exI [of _ "log_event (Probe c False) (advance d w)"]
                exI [of _ "[Probe c False]"]) simp
      next
        case b: True
        let ?w1 = "log_event (Probe c True) (advance d w)"
        from Cons.IH [of ?w1] obtain ok w' tr where
          r: "run_round net cs ?w1 = (Inr ok, w')" and
          e: "events w' = events ?w1 @ tr" and
          n: "now ?w1 \<le> now w'" and
          p: "\<forall>rcs i r pend rest.
                poll_trace rcs i r (filter recognised cs @ pend) (tr @ rest) =
                  (if ok then poll_trace rcs i r pend rest else after_failed_round rcs i r rest)"
          by blast
        have "run_round net (c # cs) w = (Inr ok, w')"
          using nh True cb b r by simp
        moreover have "events w' = events w @ (Probe c True # tr)" using e by simp
        moreover have "now w \<le> now w'" using n by simp
        moreover have "\<forall>rcs i r pend rest.
            poll_trace rcs i r (filter recognised (c # cs) @ pend) ((Probe c True # tr) @ rest) =
              (if ok then poll_trace rcs i r pend rest else after_failed_round rcs i r rest)"
          using True p by (simp add: recognised_def poll_trace_Probe del: poll_trace.simps)
        ultimately show ?thesis by blast
      qed
    next
      case False
      from Cons.IH [of w] obtain ok w' tr where
        r: "run_round net cs w = (Inr ok, w')" and
        e: "events w' = events w @ tr" and
        n: "now w \<le> now w'" and
        p: "\<forall>rcs i r pend rest.
              poll_trace rcs i r (filter recognised cs @ pend) (tr @ rest) =
                (if ok then poll_trace rcs i r pend rest else after_failed_round rcs i r rest)"
        by blast
      have "run_round net (c # cs) w = (Inr ok, w')" using nh False r by simp
      moreover have "filter recognised (c # cs) = filter recognised cs"
        using nh False by (simp add: recognised_def)
      ultimately show ?thesis using e n p by (metis (no_types, lifting))
    qed
  qed
qed

lemma time_sleep_cases:
  "time_sleep i w = (if i < 0 then (Inl ValueError, w)
                     else (Inr (), log_event (Sleep i) (w\<lparr>now := now w + i\<rparr>)))"
  by (simp add: time_sleep_def)

lemma wait_loop_trace:
  assumes "wait_loop net cs T I st w = Some y"
  shows "\<exists>tr. events (snd y) = events w @ tr \<and>
           poll_trace (filter recognised cs) I (fst y) (filter recognised cs) tr"
proof (rule wait_loop.raw_induct
    [where P = "\<lambda>net cs T I st w y. \<exists>tr. events (snd y) = events w @ tr \<and>
           poll_trace (filter recognised cs) I (fst y) (filter recognised cs) tr", OF _ assms],
    goal_cases)
  case (1 f net cs T I st w y)
  let ?rcs = "filter recognised cs"
  show ?case
  proof (cases "now w - st < T")
    case False
    with 1(2) have "y = (Inr False, w)" by simp
    then show ?thesis by simp
  next
    case True
    obtain ok w1 tr1 where
      r: "run_round net cs w = (Inr ok, w1)" and
      e: "events w1 = events w @ tr1" and
      p: "\<forall>rcs i r pend rest.
            poll_trace rcs i r (filter recognised cs @ pend) (tr1 @ rest) =
              (if ok then poll_trace rcs i r pend rest else after_failed_round rcs i r rest)"
      using run_round_trace [of net cs w] by blast
    show ?thesis
    proof (cases ok)
      case True
      with \<open>now w - st < T\<close> r 1(2) have y: "y = (Inr True, w1)" by simp
      have "poll_trace ?rcs I (Inr True) (?rcs @ []) (tr1 @ []) = poll_trace ?rcs I (Inr True) [] []"
        using p True by metis
      then have "poll_trace ?rcs I (Inr True) ?rcs tr1" by simp
      with y e show ?thesis by simp
    next
      case False
      note nok = this
      show ?thesis
      proof (cases "I < 0")
        case True
        with \<open>now w - st < T\<close> r nok 1(2) have y: "y = (Inl ValueError, w1)"
          by (simp add: time_sleep_cases)
        have "poll_trace ?rcs I (Inl ValueError) (?rcs @ []) (tr1 @ []) =
                after_failed_round ?rcs I (Inl ValueError) []"
          using p nok by metis
        then have "poll_trace ?rcs I (Inl ValueError) ?rcs tr1"
          using True by (simp add: after_failed_round_def)
        with y e show ?thesis by simp
      next
        case False
        let ?w2 = "log_event (Sleep I) (w1\<lparr>now := now w1 + I\<rparr>)"
        from \<open>now w - st < T\<close> r nok False 1(2) have "f net cs T I st ?w2 = Some y"
          by (simp add: time_sleep_cases)
        from 1(1) [OF this] obtain tr2 where
          e2: "events (snd y) = events ?w2 @ tr2" and
          p2: "poll_trace ?rcs I (fst y) ?rcs tr2" by blast
        have "poll_trace ?rcs I (fst y) (?rcs @ []) (tr1 @ (Sleep I # tr2)) =
                after_failed_round ?rcs I (fst y) (Sleep I # tr2)"
          using p nok by metis
        then have "poll_trace ?rcs I (fst y) ?rcs (tr1 @ Sleep I # tr2)"
          using p2 False by (simp add: after_failed_round_def)
        moreover have "events (snd y) = events w @ (tr1 @ Sleep I # tr2)"
          using e2 e by simp
        ultimately show ?thesis by blast
      qed
    qed
  qed
qed

lemma wait_loop_exit:
  "\<not> now w - st < T \<Longrightarrow> wait_loop net cs T I st w = Some (Inr False, w)"
  by (subst wait_loop.simps) simp

lemma wait_loop_pass:
  "now w - st < T \<Longrightarrow> run_round net cs w = (Inr True, w1) \<Longrightarrow>
   wait_loop net cs T I st w = Some (Inr True, w1)"
  by (subst wait_loop.simps) simp

lemma wait_loop_raise:
  "now w - st < T \<Longrightarrow> run_round net cs w = (Inr False, w1) \<Longrightarrow> I < 0 \<Longrightarrow>
   wait_loop net cs T I st w = Some (Inl ValueError, w1)"
  by (subst wait_loop.simps) (simp add: time_sleep_cases)

lemma wait_loop_fail:
  "now w - st < T \<Longrightarrow> run_round net cs w = (Inr False, w1) \<Longrightarrow> 0 \<le> I \<Longrightarrow>
   wait_loop net cs T I st w =
     wait_loop net cs T I st (log_event (Sleep I) (w1\<lparr>now := now w1 + I\<rparr>))"
  by (subst wait_loop.simps) (simp add: time_sleep_cases)

lemma run_round_now: "run_round net cs w = (r, w') \<Longrightarrow> now w \<le> now w'"
  using run_round_trace [of net cs w] by auto

lemma wait_loop_never_pass:
  assumes I: "0 < I"
    and never: "\<forall>w. \<exists>w'. run_round net cs w = (Inr False, w') \<and> now w' - now w \<le> L"
  shows "\<exists>w'. wait_loop net cs T I st w = Some (Inr False, w') \<and>
           (if now w - st < T then T \<le> now w' - st \<and> now w' - st < T + I + L else w' = w)"
proof (induction "nat (T - (now w - st))" arbitrary: w rule: less_induct)
  case less
  show ?case
  proof (cases "now w - st < T")
    case False
    then show ?thesis by (simp add: wait_loop_exit)
  next
    case True
    obtain w1 where r: "run_round net cs w = (Inr False, w1)" and l: "now w1 - now w \<le> L"
      using never by blast
    have m: "now w \<le> now w1" using r by (rule run_round_now)
    let ?w2 = "log_event (Sleep I) (w1\<lparr>now := now w1 + I\<rparr>)"
    have n2: "now ?w2 = now w1 + I" by simp
    have step: "wait_loop net cs T I st w = wait_loop net cs T I st ?w2"
      using True r I by (simp add: wait_loop_fail)
    have "nat (T - (now ?w2 - st)) < nat (T - (now w - st))"
      using True m I n2 by linarith
    from less [OF this] obtain w' where
      w': "wait_loop net cs T I st ?w2 = Some (Inr False, w')" and
      b: "if now ?w2 - st < T then T \<le> now w' - st \<and> now w' - st < T + I + L else w' = ?w2"
      by blast
    have "T \<le> now w' - st \<and> now w' - st < T + I + L"
    proof (cases "now ?w2 - st < T")
      case True
      with b show ?thesis by simp
    next
      case False
      with b have "w' = ?w2" by simp
      then have nw: "now w' = now w1 + I" by simp
      from False have "T \<le> now w1 + I - st" by simp
      with nw l True show ?thesis by linarith
    qed
    with step w' True show ?thesis by simp
  qed
qed

section \<open>The claims of the specification\<close>

subsection \<open>The health-check evaluator\<close>

text \<open>
  C5. One evaluation of a health check, HTTP or TCP, returns a boolean and never
  raises, whatever the record holds and whatever the network does. An HTTP
  check passes exactly when a response arrives whose status is the expected
  one, a TCP check exactly when \<^verbatim>\<open>connect_ex\<close> returns 0. Every other outcome is
  \<open>False\<close>: an exception raised by the transport (a timeout, a refused
  connection, a failed name lookup), an error number returned by \<^verbatim>\<open>connect_ex\<close>
  (a refused or timed-out connection), another status, a missing key. The poller
  goes on from the world the attempt left.
\<close>

theorem evaluator_never_raises:
  "(\<exists>b. fst (check_http net c w) = Inr b) \<and>
   (\<exists>b. fst (check_tcp net c w) = Inr b) \<and>
   (fst (check_http net c w) = Inr True \<longleftrightarrow>
      (\<exists>url status_code d. map_of c ''url'' = Some url \<and>
         requests_get net (now w) url = (Inr status_code, d) \<and>
         VInt status_code = (case map_of c ''expected_status'' of None \<Rightarrow> VInt 200 | Some v \<Rightarrow> v))) \<and>
   (fst (check_tcp net c w) = Inr True \<longleftrightarrow>
      (\<exists>host port d. map_of c ''host'' = Some host \<and> map_of c ''port'' = Some port \<and>
         connect_ex net (now w) host port = (Inr 0, d))) \<and>
   (\<forall>url e d. map_of c ''url'' = Some url \<and> requests_get net (now w) url = (Inl e, d)
      \<longrightarrow> check_http net c w = (Inr False, advance d w)) \<and>
   (\<forall>host port e d. map_of c ''host'' = Some host \<and> map_of c ''port'' = Some port \<and>
        connect_ex net (now w) host port = (Inl e, d)
      \<longrightarrow> check_tcp net c w = (Inr False, advance d w)) \<and>
   (\<forall>url status_code d. map_of c ''url'' = Some url \<and>
        requests_get net (now w) url = (Inr status_code, d)
      \<longrightarrow> check_http net c w =
            (Inr (VInt status_code =
                    (case map_of c ''expected_status'' of None \<Rightarrow> VInt 200 | Some v \<Rightarrow> v)),
             advance d w)) \<and>
   (\<forall>host port result d. map_of c ''host'' = Some host \<and> map_of c ''port'' = Some port \<and>
        connect_ex net (now w) host port = (Inr result, d)
      \<longrightarrow> check_tcp net c w = (Inr (result = 0), advance d w)) \<and>
   (map_of c ''url'' = None \<longrightarrow> check_http net c w = (Inr False, w)) \<and>
   (map_of c ''host'' = None \<or> map_of c ''port'' = None \<longrightarrow> check_tcp net c w = (Inr False, w))"
proof -
  have h1: "\<exists>b. fst (check_http net c w) = Inr b"
    using check_http_shape [of net c w] by auto
  have t1: "\<exists>b. fst (check_tcp net c w) = Inr b"
    using check_tcp_shape [of net c w] by auto
  have h2: "fst (check_http net c w) = Inr True \<longleftrightarrow>
      (\<exists>url status_code d. map_of c ''url'' = Some url \<and>
         requests_get net (now w) url = (Inr status_code, d) \<and>
         VInt status_code = (case map_of c ''expected_status'' of None \<Rightarrow> VInt 200 | Some v \<Rightarrow> v))"
    by (auto simp: check_http_def check_http_try_def Let_def
           split: option.splits prod.splits sum.splits)
  have t2: "fst (check_tcp net c w) = Inr True \<longleftrightarrow>
      (\<exists>host port d. map_of c ''host'' = Some host \<and> map_of c ''port'' = Some port \<and>
         connect_ex net (now w) host port = (Inr 0, d))"
    by (auto simp: check_tcp_def check_tcp_try_def split: option.splits prod.splits sum.splits)
  have h3: "\<forall>url e d. map_of c ''url'' = Some url \<and> requests_get net (now w) url = (Inl e, d)
      \<longrightarrow> check_http net c w = (Inr False, advance d w)"
    by (simp add: check_http_def check_http_try_def)
  have t3: "\<forall>host port e d. map_of c ''host'' = Some host \<and> map_of c ''port'' = Some port \<and>
        connect_ex net (now w) host port = (Inl e, d)
      \<longrightarrow> check_tcp net c w = (Inr False, advance d w)"
    by (simp add: check_tcp_def check_tcp_try_def)
  have h4: "\<forall>url status_code d. map_of c ''url'' = Some url \<and>
        requests_get net (now w) url = (Inr status_code, d)
      \<longrightarrow> check_http net c w =
            (Inr (VInt status_code =
                    (case map_of c ''expected_status'' of None \<Rightarrow> VInt 200 | Some v \<Rightarrow> v)),
             advance d w)"
    by (simp add: check_http_def check_http_try_def Let_def)
  have t4: "\<forall>host port result d. map_of c ''host'' = Some host \<and> map_of c ''port'' = Some port \<and>
        connect_ex net (now w) host port = (Inr result, d)
      \<longrightarrow> check_tcp net c w = (Inr (result = 0), advance d w)"
    by (simp add: check_tcp_def check_tcp_try_def)
  have h5: "map_of c ''url'' = None \<longrightarrow> check_http net c w = (Inr False, w)"
    by (simp add: check_http_def check_http_try_def)
  have t5: "map_of c ''host'' = None \<or> map_of c ''port'' = None \<longrightarrow> check_tcp net c w = (Inr False, w)"
    by (auto simp add: check_tcp_def check_tcp_try_def split: option.splits)
  from h1 t1 h2 t2 h3 t3 h4 t4 h5 t5 show ?thesis by (intro conjI)
qed

theorem evaluator_never_raises_witness:
  "check_http net_down http_check w0 = (Inr False, \<lparr>now = 5, events = []\<rparr>) \<and>
   check_tcp net_down tcp_check w0 = (Inr False, w0) \<and>
   check_tcp net_slow tcp_check w0 = (Inr False, \<lparr>now = 3, events = []\<rparr>) \<and>
   check_tcp net_late tcp_check w0 = (Inr False, w0) \<and>
   check_tcp net_late tcp_check w12 = (Inr True, w12) \<and>
   check_http net_late http_check w0 = (Inr True, w0) \<and>
   check_http net_late (http_check @ [(''expected_status'', VInt 204)]) w0 = (Inr False, w0) \<and>
   check_http net_late grpc_check w0 = (Inr False, w0) \<and>
   check_tcp net_late http_check w0 = (Inr False, w0)"
  using evaluator_never_raises [of net_down http_check w0]
    evaluator_never_raises [of net_down tcp_check w0]
    evaluator_never_raises [of net_slow tcp_check w0]
    evaluator_never_raises [of net_late tcp_check w0]
    evaluator_never_raises [of net_late tcp_check w12]
    evaluator_never_raises [of net_late http_check w0]
    evaluator_never_raises [of net_late "http_check @ [(''expected_status'', VInt 204)]" w0]
    evaluator_never_raises [of net_late grpc_check w0]
  by (simp add: net_down_def net_slow_def net_late_def http_check_def tcp_check_def grpc_check_def
        w0_def w12_def advance_def)

subsection \<open>The readiness poller\<close>

lemma run_round_recognised:
  assumes "recognised c"
  shows "\<exists>b d. run_round net (c # cs) w =
           (if b then run_round net cs (log_event (Probe c True) (advance d w))
            else (Inr False, log_event (Probe c False) (advance d w)))"
proof (cases "map_of c ''type'' = Some (VStr ''http'')")
  case True
  obtain b d where "check_http net c w = (Inr b, advance d w)"
    using check_http_shape by blast
  with True have "run_round net (c # cs) w =
           (if b then run_round net cs (log_event (Probe c True) (advance d w))
            else (Inr False, log_event (Probe c False) (advance d w)))" by simp
  then show ?thesis by blast
next
  case False
  with assms have t: "map_of c ''type'' = Some (VStr ''tcp'')" by (simp add: recognised_def)
  obtain b d where "check_tcp net c w = (Inr b, advance d w)"
    using check_tcp_shape by blast
  with False t have "run_round net (c # cs) w =
           (if b then run_round net cs (log_event (Probe c True) (advance d w))
            else (Inr False, log_event (Probe c False) (advance d w)))" by simp
  then show ?thesis by blast
qed

lemma run_round_unrecognised:
  "\<not> recognised c \<Longrightarrow> run_round net (c # cs) w = run_round net cs w"
  by (simp add: recognised_def)

lemma run_round_pass_events:
  "run_round net cs w = (Inr True, w1) \<Longrightarrow>
   events w1 = events w @ map (\<lambda>c. Probe c True) (filter recognised cs)"
proof (induction cs arbitrary: w)
  case Nil
  then show ?case by simp
next
  case (Cons c cs)
  show ?case
  proof (cases "recognised c")
    case False
    with Cons show ?thesis by (simp add: run_round_unrecognised del: run_round.simps)
  next
    case True
    from run_round_recognised [OF True, of net cs w] obtain b d where
      s: "run_round net (c # cs) w =
           (if b then run_round net cs (log_event (Probe c True) (advance d w))
            else (Inr False, log_event (Probe c False) (advance d w)))" by blast
    with Cons.prems have b: b by (cases b) simp_all
    with s Cons.prems have "run_round net cs (log_event (Probe c True) (advance d w)) = (Inr True, w1)"
      by simp
    from Cons.IH [OF this] True show ?thesis by simp
  qed
qed

lemma run_round_fail_events:
  "run_round net cs w = (Inr False, w1) \<Longrightarrow>
   \<exists>pre c post. filter recognised cs = pre @ c # post \<and>
     events w1 = events w @ map (\<lambda>c. Probe c True) pre @ [Probe c False]"
proof (induction cs arbitrary: w)
  case Nil
  then show ?case by simp
next
  case (Cons c cs)
  show ?case
  proof (cases "recognised c")
    case False
    with Cons show ?thesis by (simp add: run_round_unrecognised del: run_round.simps)
  next
    case True
    from run_round_recognised [OF True, of net cs w] obtain b d where
      s: "run_round net (c # cs) w =
           (if b then run_round net cs (log_event (Probe c True) (advance d w))
            else (Inr False, log_event (Probe c False) (advance d w)))" by blast
    show ?thesis
    proof (cases b)
      case False
      with s Cons.prems have "w1 = log_event (Probe c False) (advance d w)" by simp
      then have "filter recognised (c # cs) = [] @ c # filter recognised cs \<and>
          events w1 = events w @ map (\<lambda>c. Probe c True) [] @ [Probe c False]"
        using True by simp
      then show ?thesis by blast
    next
      case b: True
      with s Cons.prems have "run_round net cs (log_event (Probe c True) (advance d w)) = (Inr False, w1)"
        by simp
      from Cons.IH [OF this] obtain pre c' post where
        f: "filter recognised cs = pre @ c' # post" and
        e: "events w1 = events (log_event (Probe c True) (advance d w)) @
              map (\<lambda>c. Probe c True) pre @ [Probe c' False]" by blast
      have "filter recognised (c # cs) = (c # pre) @ c' # post \<and>
          events w1 = events w @ map (\<lambda>c. Probe c True) (c # pre) @ [Probe c' False]"
        using True f e by simp
      then show ?thesis by blast
    qed
  qed
qed

lemma run_round_evaluates:
  assumes "recognised c"
  shows "\<exists>b w'. (if map_of c ''type'' = Some (VStr ''http'')
                  then check_http net c w else check_tcp net c w) = (Inr b, w') \<and>
           run_round net (c # cs) w =
             (if b then run_round net cs (log_event (Probe c True) w')
              else (Inr False, log_event (Probe c False) w'))"
proof (cases "map_of c ''type'' = Some (VStr ''http'')")
  case True
  obtain b d where e: "check_http net c w = (Inr b, advance d w)"
    using check_http_shape by blast
  with True have "run_round net (c # cs) w =
           (if b then run_round net cs (log_event (Probe c True) (advance d w))
            else (Inr False, log_event (Probe c False) (advance d w)))" by simp
  with True e show ?thesis by simp
next
  case False
  with assms have t: "map_of c ''type'' = Some (VStr ''tcp'')" by (simp add: recognised_def)
  obtain b d where e: "check_tcp net c w = (Inr b, advance d w)"
    using check_tcp_shape by blast
  with False t have "run_round net (c # cs) w =
           (if b then run_round net cs (log_event (Probe c True) (advance d w))
            else (Inr False, log_event (Probe c False) (advance d w)))" by simp
  with False e show ?thesis by simp
qed

lemma wait_loop_returns:
  assumes I: "I \<noteq> 0"
  shows "\<exists>y. wait_loop net cs T I st w = Some y"
proof (induction "nat (T - (now w - st))" arbitrary: w rule: less_induct)
  case less
  show ?case
  proof (cases "now w - st < T")
    case False
    then show ?thesis by (simp add: wait_loop_exit)
  next
    case True
    obtain ok w1 where r: "run_round net cs w = (Inr ok, w1)" and m: "now w \<le> now w1"
      using run_round_trace [of net cs w] by blast
    show ?thesis
    proof (cases ok)
      case True
      with \<open>now w - st < T\<close> r show ?thesis by (simp add: wait_loop_pass)
    next
      case False
      note nok = this
      show ?thesis
      proof (cases "I < 0")
        case True
        with \<open>now w - st < T\<close> r nok show ?thesis by (simp add: wait_loop_raise)
      next
        case False
        with I have pos: "0 < I" by simp
        let ?w2 = "log_event (Sleep I) (w1\<lparr>now := now w1 + I\<rparr>)"
        have n2: "now ?w2 = now w1 + I" by simp
        have step: "wait_loop net cs T I st w = wait_loop net cs T I st ?w2"
          using \<open>now w - st < T\<close> r nok pos by (simp add: wait_loop_fail)
        have "nat (T - (now ?w2 - st)) < nat (T - (now w - st))"
          using \<open>now w - st < T\<close> m pos n2 by linarith
        from less [OF this] step show ?thesis by simp
      qed
    qed
  qed
qed

text \<open>
  C3. A round goes through the checks in list order. A record of an unknown
  type is passed over. A recognised check is evaluated by the evaluator of its
  type in the world reached so far; when the evaluator answers \<open>True\<close> the round
  goes on with the next check, when it answers \<open>False\<close> the round ends as failed
  and the remaining checks are skipped. So a passing round leaves one passing
  probe per recognised check, and a failing round the passing probes of a prefix
  and then the failing probe. In the loop, a passing round makes the poller
  return \<open>True\<close> in the world that round left, so without any sleep (in
  particular when the first round passes), and after a failed round the loop
  goes on from the world in which exactly the interval was slept. For a nonzero
  interval the call always returns or raises. And whenever it returns or
  raises, its trace has the shape \<open>poll_trace\<close> describes: every failing round is
  followed by a sleep of exactly the interval before the next round starts, and
  a passing round ends the call at once.
\<close>

theorem wait_for_health_rounds:
  "run_round net [] w = (Inr True, w) \<and>
   (\<not> recognised c \<longrightarrow> run_round net (c # cs) w = run_round net cs w) \<and>
   (recognised c \<longrightarrow>
      (\<exists>b w'. (if map_of c ''type'' = Some (VStr ''http'')
                then check_http net c w else check_tcp net c w) = (Inr b, w') \<and>
         run_round net (c # cs) w =
           (if b then run_round net cs (log_event (Probe c True) w')
            else (Inr False, log_event (Probe c False) w')))) \<and>
   (run_round net cs w = (Inr True, w1) \<longrightarrow>
      events w1 = events w @ map (\<lambda>c. Probe c True) (filter recognised cs)) \<and>
   (run_round net cs w = (Inr False, w1) \<longrightarrow>
      (\<exists>pre c post. filter recognised cs = pre @ c # post \<and>
         events w1 = events w @ map (\<lambda>c. Probe c True) pre @ [Probe c False])) \<and>
   (now w - st < T \<and> run_round net cs w = (Inr True, w1) \<longrightarrow>
      wait_loop net cs T I st w = Some (Inr True, w1)) \<and>
   (now w - st < T \<and> run_round net cs w = (Inr False, w1) \<and> 0 \<le> I \<longrightarrow>
      wait_loop net cs T I st w =
        wait_loop net cs T I st (log_event (Sleep I) (w1\<lparr>now := now w1 + I\<rparr>))) \<and>
   (0 < T \<and> run_round net cs w = (Inr True, w1) \<longrightarrow>
      wait_for_health net cs T I w = Some (Inr True, w1)) \<and>
   (I \<noteq> 0 \<longrightarrow> (\<exists>y. wait_for_health net cs T I w = Some y)) \<and>
   (wait_for_health net cs T I w = Some (res, w') \<longrightarrow>
      (\<exists>tr. events w' = events w @ tr \<and>
         poll_trace (filter recognised cs) I res (filter recognised cs) tr))"
proof (intro conjI impI)
  show "run_round net [] w = (Inr True, w)" by simp
next
  assume "\<not> recognised c"
  then show "run_round net (c # cs) w = run_round net cs w" by (rule run_round_unrecognised)
next
  assume "recognised c"
  then show "\<exists>b w'. (if map_of c ''type'' = Some (VStr ''http'')
                then check_http net c w else check_tcp net c w) = (Inr b, w') \<and>
         run_round net (c # cs) w =
           (if b then run_round net cs (log_event (Probe c True) w')
            else (Inr False, log_event (Probe c False) w'))"
    by (rule run_round_evaluates)
next
  assume "run_round net cs w = (Inr True, w1)"
  then show "events w1 = events w @ map (\<lambda>c. Probe c True) (filter recognised cs)"
    by (rule run_round_pass_events)
next
  assume "run_round net cs w = (Inr False, w1)"
  then show "\<exists>pre c post. filter recognised cs = pre @ c # post \<and>
         events w1 = events w @ map (\<lambda>c. Probe c True) pre @ [Probe c False]"
    by (rule run_round_fail_events)
next
  assume "now w - st < T \<and> run_round net cs w = (Inr True, w1)"
  then show "wait_loop net cs T I st w = Some (Inr True, w1)"
    by (simp add: wait_loop_pass)
next
  assume "now w - st < T \<and> run_round net cs w = (Inr False, w1) \<and> 0 \<le> I"
  then show "wait_loop net cs T I st w =
        wait_loop net cs T I st (log_event (Sleep I) (w1\<lparr>now := now w1 + I\<rparr>))"
    by (simp add: wait_loop_fail)
next
  assume "0 < T \<and> run_round net cs w = (Inr True, w1)"
  then show "wait_for_health net cs T I w = Some (Inr True, w1)"
    by (simp add: wait_for_health_def wait_loop_pass)
next
  assume "I \<noteq> 0"
  then show "\<exists>y. wait_for_health net cs T I w = Some y"
    unfolding wait_for_health_def by (rule wait_loop_returns)
next
  assume "wait_for_health net cs T I w = Some (res, w')"
  then have "wait_loop net cs T I (now w) w = Some (res, w')"
    by (simp add: wait_for_health_def)
  from wait_loop_trace [OF this]
  show "\<exists>tr. events w' = events w @ tr \<and>
         poll_trace (filter recognised cs) I res (filter recognised cs) tr" by simp
qed

theorem wait_for_health_rounds_witness:
  "recognised tcp_check \<and> \<not> recognised grpc_check \<and>
   check_tcp net_late tcp_check w0 = (Inr False, w0) \<and>
   run_round net_late [tcp_check, http_check] w0 = (Inr False, \<lparr>now = 0, events = [Probe tcp_check False]\<rparr>) \<and>
   run_round net_late [grpc_check, http_check, tcp_check] w12 =
     (Inr True, \<lparr>now = 12, events = [Probe http_check True, Probe tcp_check True]\<rparr>) \<and>
   run_round net_late [http_check, tcp_check] w12 =
     (Inr True, \<lparr>now = 12, events = [Probe http_check True, Probe tcp_check True]\<rparr>) \<and>
   wait_for_health net_late [http_check, tcp_check] 20 5 w12 =
     Some (Inr True, \<lparr>now = 12, events = [Probe http_check True, Probe tcp_check True]\<rparr>) \<and>
   run_round net_late [http_check, tcp_check] w0 =
     (Inr False, \<lparr>now = 0, events = [Probe http_check True, Probe tcp_check False]\<rparr>) \<and>
   wait_loop net_late [http_check, tcp_check] 20 5 0 w0 =
     wait_loop net_late [http_check, tcp_check] 20 5 0
       \<lparr>now = 5, events = [Probe http_check True, Probe tcp_check False, Sleep 5]\<rparr> \<and>
   wait_for_health net_late [http_check, tcp_check] 20 5 w0 =
     Some (Inr True,
       \<lparr>now = 15,
        events = [Probe http_check True, Probe tcp_check False, Sleep 5,
                  Probe http_check True, Probe tcp_check False, Sleep 5,
                  Probe http_check True, Probe tcp_check False, Sleep 5,
                  Probe http_check True, Probe tcp_check True]\<rparr>) \<and>
   poll_trace [http_check, tcp_check] 5 (Inr True) [http_check, tcp_check]
     [Probe http_check True, Probe tcp_check False, Sleep 5,
      Probe http_check True, Probe tcp_check False, Sleep 5,
      Probe http_check True, Probe tcp_check False, Sleep 5,
      Probe http_check True, Probe tcp_check True]"
  using wait_for_health_rounds [where net = net_late and cs = "[http_check, tcp_check]"
      and c = grpc_check and st = 12
      and w = w12 and T = 20 and I = 5 and res = "Inr True"
      and ?w1.0 = "\<lparr>now = 12, events = [Probe http_check True, Probe tcp_check True]\<rparr>"
      and w' = "\<lparr>now = 12, events = [Probe http_check True, Probe tcp_check True]\<rparr>"]
    wait_for_health_rounds [where net = net_late and cs = "[http_check, tcp_check]"
      and c = tcp_check and st = 0
      and w = w0 and T = 20 and I = 5 and res = "Inr True"
      and ?w1.0 = "\<lparr>now = 0, events = [Probe http_check True, Probe tcp_check False]\<rparr>"
      and w' = "\<lparr>now = 15,
        events = [Probe http_check True, Probe tcp_check False, Sleep 5,
                  Probe http_check True, Probe tcp_check False, Sleep 5,
                  Probe http_check True, Probe tcp_check False, Sleep 5,
                  Probe http_check True, Probe tcp_check True]\<rparr>"]
  unfolding wait_for_health_def
  by (simp add: wait_loop.simps net_late_def tcp_check_def http_check_def grpc_check_def
        w0_def w12_def
        check_tcp_def check_tcp_try_def check_http_def check_http_try_def recognised_def
        time_sleep_def log_event_def advance_def)

lemma run_round_late_lat:
  "now w < 12 \<Longrightarrow> run_round (net_late_lat lat) [tcp_check] w =
     (Inr False, log_event (Probe tcp_check False) (advance (lat (now w)) w))"
  by (simp add: net_late_lat_def tcp_check_def check_tcp_def check_tcp_try_def)

lemma wait_loop_late_lat:
  assumes "now w - st < 10" "now w < 12"
  shows "wait_loop (net_late_lat lat) [tcp_check] 10 5 st w =
         wait_loop (net_late_lat lat) [tcp_check] 10 5 st
           (log_event (Sleep 5) (log_event (Probe tcp_check False)
              (w\<lparr>now := now w + int (lat (now w)) + 5\<rparr>)))"
  using wait_loop_fail [OF assms(1) run_round_late_lat [OF assms(2)], of 5 lat]
  by (simp add: log_event_def advance_def)

lemma late_instance:
  "\<exists>w'. wait_for_health (net_late_lat lat) [tcp_check] 10 5 w0 = Some (Inr False, w')"
proof -
  let ?n = "net_late_lat lat"
  let ?w1 = "log_event (Sleep 5) (log_event (Probe tcp_check False)
              (w0\<lparr>now := now w0 + int (lat (now w0)) + 5\<rparr>))"
  have n0: "now w0 = 0" by (simp add: w0_def)
  have s1: "wait_loop ?n [tcp_check] 10 5 0 w0 = wait_loop ?n [tcp_check] 10 5 0 ?w1"
    using wait_loop_late_lat [of w0 0 lat] n0 by simp
  have n1: "now ?w1 = int (lat 0) + 5" using n0 by simp
  show ?thesis
  proof (cases "now ?w1 < 10")
    case False
    then have "wait_loop ?n [tcp_check] 10 5 0 ?w1 = Some (Inr False, ?w1)"
      using wait_loop_exit [of ?w1 0 10] by simp
    with s1 n0 show ?thesis by (simp add: wait_for_health_def)
  next
    case True
    let ?w2 = "log_event (Sleep 5) (log_event (Probe tcp_check False)
              (?w1\<lparr>now := now ?w1 + int (lat (now ?w1)) + 5\<rparr>))"
    have s2: "wait_loop ?n [tcp_check] 10 5 0 ?w1 = wait_loop ?n [tcp_check] 10 5 0 ?w2"
      using wait_loop_late_lat [of ?w1 0 lat] True by simp
    have "now ?w2 = now ?w1 + int (lat (now ?w1)) + 5" by simp
    with n1 have "\<not> now ?w2 - 0 < 10" by simp
    then have "wait_loop ?n [tcp_check] 10 5 0 ?w2 = Some (Inr False, ?w2)"
      by (rule wait_loop_exit)
    with s1 s2 n0 show ?thesis by (simp add: wait_for_health_def)
  qed
qed

text \<open>
  C4, as amended. For every timeout \<open>T\<close> and every positive interval \<open>I\<close>: if no
  round ever passes and a round never takes more than \<open>L\<close> time units, the poller
  terminates and returns \<open>False\<close>. When \<open>T\<close> is positive the elapsed time lies in
  \<open>[T, T + I + L)\<close>, which is the interval \<open>[T, T + I)\<close> only for probes that
  take no time; otherwise the poller returns at once. With timeout 10, interval
  5 and one TCP check that fails before time 12, the poller returns \<open>False\<close>
  whatever the latencies of the attempts.
\<close>

theorem wait_for_health_deadline:
  "(0 < I \<and> (\<forall>w. \<exists>w'. run_round net cs w = (Inr False, w') \<and> now w' - now w \<le> L) \<longrightarrow>
      (\<exists>w'. wait_for_health net cs T I w = Some (Inr False, w') \<and>
         (if 0 < T then T \<le> now w' - now w \<and> now w' - now w < T + I + L else w' = w))) \<and>
   (\<exists>w'. wait_for_health (net_late_lat lat) [tcp_check] 10 5 w0 = Some (Inr False, w'))"
proof (intro conjI impI)
  assume a: "0 < I \<and> (\<forall>w. \<exists>w'. run_round net cs w = (Inr False, w') \<and> now w' - now w \<le> L)"
  from wait_loop_never_pass [of I net cs L T "now w" w] a
  show "\<exists>w'. wait_for_health net cs T I w = Some (Inr False, w') \<and>
         (if 0 < T then T \<le> now w' - now w \<and> now w' - now w < T + I + L else w' = w)"
    by (simp add: wait_for_health_def)
next
  show "\<exists>w'. wait_for_health (net_late_lat lat) [tcp_check] 10 5 w0 = Some (Inr False, w')"
    by (rule late_instance)
qed

theorem wait_for_health_deadline_witness:
  "(0::int) < 5 \<and>
   (\<forall>w. \<exists>w'. run_round net_down [tcp_check] w = (Inr False, w') \<and> now w' - now w \<le> 0) \<and>
   (\<exists>w'. wait_for_health net_down [tcp_check] 10 5 w0 = Some (Inr False, w') \<and>
      10 \<le> now w' - now w0 \<and> now w' - now w0 < 10 + 5 + 0)"
proof -
  have h: "\<forall>w. \<exists>w'. run_round net_down [tcp_check] w = (Inr False, w') \<and> now w' - now w \<le> 0"
    by (simp add: net_down_def tcp_check_def check_tcp_def check_tcp_try_def)
  with wait_for_health_deadline [of 5 net_down "[tcp_check]" 0 10 w0] show ?thesis
    by simp
qed

text \<open>
  The elapsed time is not always below \<open>T + I\<close>: with probes that take 3 time
  units, timeout 10 and interval 5, the poller returns after 16 time units. And
  a negative interval makes the first sleep raise.
\<close>

theorem wait_for_health_deadline_counterexample:
  "wait_for_health net_slow [tcp_check] 10 5 w0 =
     Some (Inr False,
       \<lparr>now = 16, events = [Probe tcp_check False, Sleep 5, Probe tcp_check False, Sleep 5]\<rparr>) \<and>
   \<not> (\<exists>w'. wait_for_health net_slow [tcp_check] 10 5 w0 = Some (Inr False, w') \<and>
         10 \<le> now w' - now w0 \<and> now w' - now w0 < 10 + 5) \<and>
   wait_for_health net_slow [tcp_check] 10 (- 1) w0 =
     Some (Inl ValueError, \<lparr>now = 3, events = [Probe tcp_check False]\<rparr>)"
  unfolding wait_for_health_def
  by (simp add: wait_loop.simps net_slow_def tcp_check_def w0_def
        check_tcp_def check_tcp_try_def time_sleep_def log_event_def advance_def)

lemma run_round_filter: "run_round net cs w = run_round net (filter recognised cs) w"
proof (induction cs arbitrary: w)
  case Nil
  show ?case by simp
next
  case (Cons c cs)
  show ?case
  proof (cases "recognised c")
    case False
    then show ?thesis using Cons [of w] by (simp add: recognised_def)
  next
    case True
    then show ?thesis using Cons
      by (auto simp add: recognised_def split: prod.splits sum.splits)
  qed
qed

lemma run_round_all_unrecognised:
  "\<forall>c \<in> set cs. \<not> recognised c \<Longrightarrow> run_round net cs w = (Inr True, w)"
proof -
  assume "\<forall>c \<in> set cs. \<not> recognised c"
  then have "filter recognised cs = []" by (simp add: filter_empty_conv)
  then show ?thesis using run_round_filter [of net cs w] by simp
qed

text \<open>
  C10, as amended. A record whose \<^verbatim>\<open>type\<close> is neither \<^verbatim>\<open>"http"\<close> nor \<^verbatim>\<open>"tcp"\<close> is
  never evaluated and does not affect a round: a round over a list is the round
  over its recognised records. So for a list of unrecognised records only, and a
  positive timeout, the poller returns \<open>True\<close> in the first round, in the world it
  was called in: no probe, no sleep, no time passed, whatever the network.
\<close>

theorem unrecognised_checks_pass:
  "run_round net cs w = run_round net (filter recognised cs) w \<and>
   ((\<forall>c \<in> set cs. \<not> recognised c) \<and> 0 < T \<longrightarrow>
      wait_for_health net cs T I w = Some (Inr True, w))"
proof (intro conjI impI)
  show "run_round net cs w = run_round net (filter recognised cs) w"
    by (rule run_round_filter)
next
  assume a: "(\<forall>c \<in> set cs. \<not> recognised c) \<and> 0 < T"
  then have "run_round net cs w = (Inr True, w)" by (simp add: run_round_all_unrecognised)
  with a show "wait_for_health net cs T I w = Some (Inr True, w)"
    by (simp add: wait_for_health_def wait_loop_pass)
qed

theorem unrecognised_checks_pass_witness:
  "\<not> recognised grpc_check \<and> \<not> recognised [] \<and> (0::int) < 120 \<and>
   wait_for_health net_down [grpc_check, []] 120 5 w0 = Some (Inr True, w0)"
  using unrecognised_checks_pass [of net_down "[grpc_check, []]" w0 120 5]
  by (simp add: grpc_check_def recognised_def)

text \<open>
  With a timeout of zero the loop is never entered, and the poller returns
  \<open>False\<close> for the same list.
\<close>

theorem unrecognised_checks_pass_counterexample:
  "\<not> recognised grpc_check \<and>
   wait_for_health net_down [grpc_check] 0 5 w0 = Some (Inr False, w0)"
  by (simp add: grpc_check_def recognised_def wait_for_health_def wait_loop_exit)

subsection \<open>The report builder\<close>

lemma parse_absent: "parse_junit_xml Absent = Inr \<lparr>total = 0, passed = 0, failed = 0, failures = []\<rparr>"
  by (simp add: parse_junit_xml_def)

lemma py_int_5: "py_int ''5'' = Inr 5" "py_int ''1'' = Inr 1" "py_int ''0'' = Inr 0"
  by (simp_all add: py_int_def strip_def is_space_def is_digit_def digit_val_def)

text \<open>
  C6. The claim holds on the element the code selects, but the selection
  \<^verbatim>\<open>root.find("testsuite") or root\<close> takes a \<^verbatim>\<open>testsuite\<close> element without
  children for false and falls back to the root. A result file whose
  \<^verbatim>\<open>testsuite\<close> says 5 tests, 1 failure, 0 errors and lists no test case is
  reported as 0 total, 0 passed, 0 failed.
\<close>

theorem parse_junit_xml_childless_suite:
  "find_child childless_suite ''testsuite'' =
     Some (Element ''testsuite'' [(''tests'', ''5''), (''failures'', ''1''), (''errors'', ''0'')] []) \<and>
   py_int ''5'' = Inr 5 \<and> py_int ''1'' = Inr 1 \<and> py_int ''0'' = Inr 0 \<and>
   parse_junit_xml (Document childless_suite) =
   Inr \<lparr>total = 0, passed = 0, failed = 0, failures = []\<rparr>"
  by (simp add: parse_junit_xml_def childless_suite_def select_testsuite_def find_child_def
      truthy_def int_attr_def findall_def List.map_filter_def py_int_5)

text \<open>
  What holds: the file as pytest writes it, the counts of the selected element,
  and the entries of the failure list.
\<close>

lemma parse_pytest_report: "parse_junit_xml (Document pytest_report) =
   Inr \<lparr>total = 5, passed = 4, failed = 1,
        failures = [\<lparr>name = ''tests.test_crud.test_update'', reason = ''assert 500 == 200''\<rparr>]\<rparr>"
  by (simp add: parse_junit_xml_def pytest_report_def select_testsuite_def find_child_def
      truthy_def int_attr_def findall_def List.map_filter_def py_int_5 failure_of_def fmt_def Let_def)

lemma parse_counts:
  assumes "int_attr (select_testsuite root) ''tests'' = Inr t"
    and "int_attr (select_testsuite root) ''failures'' = Inr f"
    and "int_attr (select_testsuite root) ''errors'' = Inr e"
  shows "parse_junit_xml (Document root) =
     Inr \<lparr>total = t, passed = t - f - e, failed = f + e,
          failures = List.map_filter failure_of (findall (select_testsuite root) ''testcase'')\<rparr>"
  using assms by (simp add: parse_junit_xml_def)

lemma failure_of_entry:
  assumes "failure_of tc = Some fe"
  shows "name fe = fmt (map_of (attrib tc) ''classname'') @ ''.'' @ fmt (map_of (attrib tc) ''name'')
     \<and> length (reason fe) \<le> 200
     \<and> (\<exists>el. (find_child tc ''failure'' = Some el \<or>
              (find_child tc ''failure'' = None \<and> find_child tc ''error'' = Some el)) \<and>
            reason fe = take 200 (case map_of (attrib el) ''message'' of None \<Rightarrow> [] | Some m \<Rightarrow> m))"
  using assms
  by (auto simp add: failure_of_def Let_def split: if_splits option.splits)

subsection \<open>The run workflow\<close>

text \<open>
  C1, as amended. When bring-up returns nonzero and the artifacts directory
  holds no result file, the workflow collects artifacts, writes a summary with
  exit code 2, no bring-up time and zero tests, tears the environment down
  unless the retention flag is set, and exits with code 2.
\<close>

theorem run_env_failed:
  "up_exit x \<noteq> 0 \<and> junit_at_start x = Absent \<longrightarrow>
     (\<exists>s. run x config keep_on_fail =
        (Inr 2, [Up (up_exit x), CollectArtifacts (collect_exit x), WriteSummary s] @
                (if keep_on_fail then [] else [Down (down_exit x)])) \<and>
        exit_code s = 2 \<and> environment_bring_up_time_seconds s = None \<and> total_tests s = 0)"
  by (simp add: run_def generate_summary_def parse_absent Let_def total_tests_def
       mark_start_def new_reporter_def)

theorem run_env_failed_witness:
  "up_exit ext_env_failed \<noteq> 0 \<and> junit_at_start ext_env_failed = Absent \<and>
   run ext_env_failed config_on_fail False =
     (Inr 2, [Up 1, CollectArtifacts 0,
        WriteSummary \<lparr>timestamp = Some 0, exit_code = 2, environment_bring_up_time_seconds = None,
          test_runtime_seconds = None,
          results = \<lparr>total = 0, passed = 0, failed = 0, failures = []\<rparr>\<rparr>,
        Down 0])"
  using run_env_failed [of ext_env_failed config_on_fail False]
  by (auto simp add: ext_env_failed_def run_def generate_summary_def parse_absent Let_def
       mark_start_def new_reporter_def fresh_clock_def)

text \<open>
  With the retention flag set, \<^verbatim>\<open>down\<close> is not called after a failed bring-up.
  And a result file left in the artifacts directory by an earlier run is read
  into the summary.
\<close>

theorem run_env_failed_counterexample:
  "run ext_env_failed config_on_fail True =
     (Inr 2, [Up 1, CollectArtifacts 0,
        WriteSummary \<lparr>timestamp = Some 0, exit_code = 2, environment_bring_up_time_seconds = None,
          test_runtime_seconds = None,
          results = \<lparr>total = 0, passed = 0, failed = 0, failures = []\<rparr>\<rparr>]) \<and>
   (\<forall>d. Down d \<notin> set (snd (run ext_env_failed config_on_fail True))) \<and>
   (\<exists>s. WriteSummary s \<in> set (snd (run ext_env_failed_stale config_on_fail False)) \<and>
        total_tests s = 5)"
  by (auto simp add: ext_env_failed_def ext_env_failed_stale_def run_def generate_summary_def parse_absent Let_def
       mark_start_def new_reporter_def fresh_clock_def parse_pytest_report total_tests_def)

lemma run_ready:
  assumes "up_exit x = 0" and "parse_junit_xml (junit_after_tests x) = Inr r"
  shows "\<exists>s. run x config keep =
          (Inr (if test_exit x \<noteq> 0 then 1 else 0),
           [Up 0, RunTests (test_exit x)] @
           (if test_exit x \<noteq> 0 \<or> collect (artifacts config) = Always
            then [CollectArtifacts (collect_exit x)] else []) @
           [WriteSummary s] @
           (if test_exit x \<noteq> 0 \<and> keep then [] else [Down (down_exit x)])) \<and>
          exit_code s = (if test_exit x \<noteq> 0 then 1 else 0) \<and> results s = r \<and>
          generate_summary
            (mark_test_end (clock x 2) (mark_env_ready (clock x 1) (mark_start (clock x 0) new_reporter)))
            (junit_after_tests x) (if test_exit x \<noteq> 0 then 1 else 0) = Inr s"
  using assms by (simp add: run_def generate_summary_def Let_def)

lemma run_failed_env:
  assumes "up_exit x \<noteq> 0" and "parse_junit_xml (junit_at_start x) = Inr r"
  shows "\<exists>s. run x config keep =
          (Inr 2, [Up (up_exit x), CollectArtifacts (collect_exit x), WriteSummary s] @
                   (if keep then [] else [Down (down_exit x)])) \<and>
          exit_code s = 2 \<and> results s = r \<and>
          generate_summary (mark_start (clock x 0) new_reporter) (junit_at_start x) 2 = Inr s"
  using assms by (simp add: run_def generate_summary_def Let_def)

lemma run_Inr_parse:
  assumes "run x config keep = (Inr code, acts)"
  shows "\<exists>r. parse_junit_xml (if up_exit x \<noteq> 0 then junit_at_start x else junit_after_tests x) = Inr r"
  using assms by (auto simp add: run_def generate_summary_def Let_def split: if_splits sum.splits)





lemma run_down_exit_ready:
  assumes "up_exit x = 0"
  shows "run (x\<lparr>down_exit := d\<rparr>) config keep =
     (fst (run x config keep),
      map (\<lambda>a. case a of Down d' \<Rightarrow> Down d | _ \<Rightarrow> a) (snd (run x config keep)))"
  using assms by (simp add: run_def Let_def split: sum.splits)

lemma run_down_exit_failed:
  assumes "up_exit x \<noteq> 0"
  shows "run (x\<lparr>down_exit := d\<rparr>) config keep =
     (fst (run x config keep),
      map (\<lambda>a. case a of Down d' \<Rightarrow> Down d | _ \<Rightarrow> a) (snd (run x config keep)))"
  using assms by (simp add: run_def Let_def split: sum.splits)

lemma run_down_exit:
  "run (x\<lparr>down_exit := d\<rparr>) config keep =
     (fst (run x config keep),
      map (\<lambda>a. case a of Down d' \<Rightarrow> Down d | _ \<Rightarrow> a) (snd (run x config keep)))"
  by (cases "up_exit x = 0") (simp_all add: run_down_exit_ready run_down_exit_failed)

lemma run_exit_shape:
  "run x config keep_on_fail = (Inr code, acts) \<longrightarrow>
     (\<exists>pre s post. acts = pre @ [WriteSummary s] @ post \<and>
        (\<forall>a \<in> set pre. \<exists>c. a = Up c \<or> a = RunTests c \<or> a = CollectArtifacts c) \<and>
        (post = [] \<or> post = [Down (down_exit x)]) \<and>
        exit_code s = code \<and>
        (\<forall>d. run (x\<lparr>down_exit := d\<rparr>) config keep_on_fail =
               (Inr code, pre @ [WriteSummary s] @ (if post = [] then [] else [Down d]))))"
proof
  assume a: "run x config keep_on_fail = (Inr code, acts)"
  then obtain r where p:
    "parse_junit_xml (if up_exit x \<noteq> 0 then junit_at_start x else junit_after_tests x) = Inr r"
    using run_Inr_parse by blast
  have shape: "\<exists>pre s post. acts = pre @ [WriteSummary s] @ post \<and>
        (\<forall>a \<in> set pre. \<exists>c. a = Up c \<or> a = RunTests c \<or> a = CollectArtifacts c) \<and>
        (post = [] \<or> post = [Down (down_exit x)]) \<and> exit_code s = code"
  proof (cases "up_exit x = 0")
    case True
    with p obtain s where
      "run x config keep_on_fail =
          (Inr (if test_exit x \<noteq> 0 then 1 else 0),
           [Up 0, RunTests (test_exit x)] @
           (if test_exit x \<noteq> 0 \<or> collect (artifacts config) = Always
            then [CollectArtifacts (collect_exit x)] else []) @
           [WriteSummary s] @
           (if test_exit x \<noteq> 0 \<and> keep_on_fail then [] else [Down (down_exit x)]))"
      "exit_code s = (if test_exit x \<noteq> 0 then 1 else 0)"
      using run_ready [of x r config keep_on_fail] by auto
    with a have
      "acts = ([Up 0, RunTests (test_exit x)] @
           (if test_exit x \<noteq> 0 \<or> collect (artifacts config) = Always
            then [CollectArtifacts (collect_exit x)] else [])) @
           [WriteSummary s] @
           (if test_exit x \<noteq> 0 \<and> keep_on_fail then [] else [Down (down_exit x)])"
      "exit_code s = code" by auto
    then show ?thesis
      by (intro exI [of _ "[Up 0, RunTests (test_exit x)] @
           (if test_exit x \<noteq> 0 \<or> collect (artifacts config) = Always
            then [CollectArtifacts (collect_exit x)] else [])"] exI [of _ s]
          exI [of _ "if test_exit x \<noteq> 0 \<and> keep_on_fail then [] else [Down (down_exit x)]"])
         auto
  next
    case False
    with p obtain s where
      "run x config keep_on_fail =
          (Inr 2, [Up (up_exit x), CollectArtifacts (collect_exit x), WriteSummary s] @
                   (if keep_on_fail then [] else [Down (down_exit x)]))"
      "exit_code s = 2"
      using run_failed_env [of x r config keep_on_fail] by auto
    with a have
      "acts = [Up (up_exit x), CollectArtifacts (collect_exit x)] @ [WriteSummary s] @
                   (if keep_on_fail then [] else [Down (down_exit x)])"
      "exit_code s = code" by auto
    then show ?thesis
      by (intro exI [of _ "[Up (up_exit x), CollectArtifacts (collect_exit x)]"] exI [of _ s]
          exI [of _ "if keep_on_fail then [] else [Down (down_exit x)]"])
         auto
  qed
  then obtain pre s post where
    s1: "acts = pre @ [WriteSummary s] @ post" and
    s2: "\<forall>a \<in> set pre. \<exists>c. a = Up c \<or> a = RunTests c \<or> a = CollectArtifacts c" and
    s3: "post = [] \<or> post = [Down (down_exit x)]" and
    s4: "exit_code s = code" by blast
  have m: "map (\<lambda>a. case a of Down d' \<Rightarrow> Down d | _ \<Rightarrow> a) pre = pre" for d
    using s2 by (intro map_idI) auto
  have "run (x\<lparr>down_exit := d\<rparr>) config keep_on_fail =
               (Inr code, pre @ [WriteSummary s] @ (if post = [] then [] else [Down d]))" for d
    using run_down_exit [where x = x and d = d and config = config and keep = keep_on_fail] a s1 s3 m [of d] by auto
  with s1 s2 s3 s4 show "\<exists>pre s post. acts = pre @ [WriteSummary s] @ post \<and>
        (\<forall>a \<in> set pre. \<exists>c. a = Up c \<or> a = RunTests c \<or> a = CollectArtifacts c) \<and>
        (post = [] \<or> post = [Down (down_exit x)]) \<and>
        exit_code s = code \<and>
        (\<forall>d. run (x\<lparr>down_exit := d\<rparr>) config keep_on_fail =
               (Inr code, pre @ [WriteSummary s] @ (if post = [] then [] else [Down d])))"
    by blast
qed

lemma parse_malformed: "parse_junit_xml Malformed = Inl ParseError"
  by (simp add: parse_junit_xml_def)

lemma run_parse_Inr:
  assumes "parse_junit_xml (if up_exit x \<noteq> 0 then junit_at_start x else junit_after_tests x) = Inr r"
  shows "\<exists>code acts s. run x config keep = (Inr code, acts) \<and> WriteSummary s \<in> set acts \<and> results s = r"
proof (cases "up_exit x = 0")
  case True
  with assms have "parse_junit_xml (junit_after_tests x) = Inr r" by simp
  from run_ready [OF True this, of config keep] show ?thesis by auto
next
  case False
  with assms have "parse_junit_xml (junit_at_start x) = Inr r" by simp
  from run_failed_env [OF False this, of config keep] show ?thesis by auto
qed

lemma run_parse_Inl:
  assumes "parse_junit_xml (if up_exit x \<noteq> 0 then junit_at_start x else junit_after_tests x) = Inl e"
  shows "\<exists>acts. run x config keep = (Inl e, acts) \<and>
           (\<forall>a \<in> set acts. \<exists>c. a = Up c \<or> a = RunTests c \<or> a = CollectArtifacts c)"
  using assms by (cases "up_exit x = 0") (simp_all add: run_def generate_summary_def Let_def)

text \<open>
  C9, as amended. From bring-up on, when the result file read for the summary
  is absent or well formed, the calls of the workflow are: bring-up, tests and
  artifact collection only, then the summary, written once and carrying the exit
  code, then at most the one teardown; and whatever \<^verbatim>\<open>down\<close> returns, the exit
  code, the summary and everything before it are the same. When the result file
  cannot be parsed, \<^verbatim>\<open>write_summary\<close> raises after the collection: the exception
  leaves \<^verbatim>\<open>run\<close>, no summary is written and \<^verbatim>\<open>down\<close> is not called.
\<close>

theorem summary_once_before_teardown:
  "(parse_junit_xml (if up_exit x \<noteq> 0 then junit_at_start x else junit_after_tests x) = Inr r \<longrightarrow>
      (\<exists>code pre s post.
         run x config keep_on_fail = (Inr code, pre @ [WriteSummary s] @ post) \<and>
         (\<forall>a \<in> set pre. \<exists>c. a = Up c \<or> a = RunTests c \<or> a = CollectArtifacts c) \<and>
         (post = [] \<or> post = [Down (down_exit x)]) \<and>
         exit_code s = code \<and> results s = r \<and>
         (\<forall>d. run (x\<lparr>down_exit := d\<rparr>) config keep_on_fail =
                (Inr code, pre @ [WriteSummary s] @ (if post = [] then [] else [Down d]))))) \<and>
   (parse_junit_xml (if up_exit x \<noteq> 0 then junit_at_start x else junit_after_tests x) = Inl e \<longrightarrow>
      (\<exists>acts. run x config keep_on_fail = (Inl e, acts) \<and>
         (\<forall>a \<in> set acts. \<exists>c. a = Up c \<or> a = RunTests c \<or> a = CollectArtifacts c)))"
proof (intro conjI impI)
  assume p: "parse_junit_xml (if up_exit x \<noteq> 0 then junit_at_start x else junit_after_tests x) = Inr r"
  then obtain code acts s0 where
    a: "run x config keep_on_fail = (Inr code, acts)" and
    m: "WriteSummary s0 \<in> set acts" and r0: "results s0 = r"
    using run_parse_Inr [of x r config keep_on_fail] by blast
  from run_exit_shape [of x config keep_on_fail code acts] a obtain pre s post where
    s1: "acts = pre @ [WriteSummary s] @ post" and
    s2: "\<forall>a \<in> set pre. \<exists>c. a = Up c \<or> a = RunTests c \<or> a = CollectArtifacts c" and
    s3: "post = [] \<or> post = [Down (down_exit x)]" and
    s4: "exit_code s = code" and
    s5: "\<forall>d. run (x\<lparr>down_exit := d\<rparr>) config keep_on_fail =
               (Inr code, pre @ [WriteSummary s] @ (if post = [] then [] else [Down d]))"
    by blast
  have "s0 = s" using m s1 s2 s3 by auto
  with r0 have s6: "results s = r" by simp
  from a s1 s2 s3 s4 s5 s6
  show "\<exists>code pre s post.
         run x config keep_on_fail = (Inr code, pre @ [WriteSummary s] @ post) \<and>
         (\<forall>a \<in> set pre. \<exists>c. a = Up c \<or> a = RunTests c \<or> a = CollectArtifacts c) \<and>
         (post = [] \<or> post = [Down (down_exit x)]) \<and>
         exit_code s = code \<and> results s = r \<and>
         (\<forall>d. run (x\<lparr>down_exit := d\<rparr>) config keep_on_fail =
                (Inr code, pre @ [WriteSummary s] @ (if post = [] then [] else [Down d])))"
    by blast
next
  assume "parse_junit_xml (if up_exit x \<noteq> 0 then junit_at_start x else junit_after_tests x) = Inl e"
  then show "\<exists>acts. run x config keep_on_fail = (Inl e, acts) \<and>
         (\<forall>a \<in> set acts. \<exists>c. a = Up c \<or> a = RunTests c \<or> a = CollectArtifacts c)"
    by (rule run_parse_Inl)
qed

theorem summary_once_before_teardown_witness:
  "parse_junit_xml (junit_after_tests ext_tests_failed) = Inr (results summary_tests_failed) \<and>
   run ext_tests_failed config_on_fail True =
     (Inr 1, [Up 0, RunTests 1, CollectArtifacts 0, WriteSummary summary_tests_failed]) \<and>
   run ext_tests_failed config_on_fail False =
     (Inr 1, [Up 0, RunTests 1, CollectArtifacts 0, WriteSummary summary_tests_failed, Down 0]) \<and>
   run (ext_tests_failed\<lparr>down_exit := 7\<rparr>) config_on_fail False =
     (Inr 1, [Up 0, RunTests 1, CollectArtifacts 0, WriteSummary summary_tests_failed, Down 7]) \<and>
   run ext_tests_passed config_always False =
     (Inr 0, [Up 0, RunTests 0, CollectArtifacts 0, WriteSummary summary_tests_passed, Down 2]) \<and>
   run (ext_tests_passed\<lparr>down_exit := 0\<rparr>) config_always False =
     (Inr 0, [Up 0, RunTests 0, CollectArtifacts 0, WriteSummary summary_tests_passed, Down 0]) \<and>
   parse_junit_xml (junit_after_tests ext_malformed) = Inl ParseError \<and>
   run ext_malformed config_always True = (Inl ParseError, [Up 0, RunTests 1, CollectArtifacts 0])"
proof -
  have f: "parse_junit_xml (junit_after_tests ext_tests_failed) = Inr (results summary_tests_failed)"
    by (simp add: ext_tests_failed_def summary_tests_failed_def parse_pytest_report)
  have m: "parse_junit_xml (junit_after_tests ext_malformed) = Inl ParseError"
    by (simp add: ext_malformed_def parse_malformed)
  have r1: "run ext_tests_failed config_on_fail True =
     (Inr 1, [Up 0, RunTests 1, CollectArtifacts 0, WriteSummary summary_tests_failed])"
    by (simp add: ext_tests_failed_def summary_tests_failed_def config_on_fail_def
        parse_pytest_report run_def generate_summary_def
        Let_def mark_start_def mark_env_ready_def mark_test_end_def new_reporter_def fresh_clock_def)
  have r2: "run (ext_tests_failed\<lparr>down_exit := d\<rparr>) config_on_fail False =
     (Inr 1, [Up 0, RunTests 1, CollectArtifacts 0, WriteSummary summary_tests_failed, Down d])" for d
    by (simp add: ext_tests_failed_def summary_tests_failed_def config_on_fail_def
        parse_pytest_report run_def generate_summary_def
        Let_def mark_start_def mark_env_ready_def mark_test_end_def new_reporter_def fresh_clock_def)
  have r3: "run (ext_tests_passed\<lparr>down_exit := d\<rparr>) config_always False =
     (Inr 0, [Up 0, RunTests 0, CollectArtifacts 0, WriteSummary summary_tests_passed, Down d])" for d
    by (simp add: ext_tests_passed_def summary_tests_passed_def config_always_def
        parse_absent run_def generate_summary_def
        Let_def mark_start_def mark_env_ready_def mark_test_end_def new_reporter_def fresh_clock_def)
  have r4: "run ext_malformed config_always True = (Inl ParseError, [Up 0, RunTests 1, CollectArtifacts 0])"
    by (simp add: ext_malformed_def config_always_def parse_malformed run_def generate_summary_def Let_def)
  have e1: "ext_tests_failed\<lparr>down_exit := 0\<rparr> = ext_tests_failed"
    by (simp add: ext_tests_failed_def)
  have e2: "ext_tests_passed\<lparr>down_exit := 2\<rparr> = ext_tests_passed"
    by (simp add: ext_tests_passed_def)
  from summary_once_before_teardown
      [of ext_tests_failed "results summary_tests_failed" config_on_fail True ParseError]
    summary_once_before_teardown
      [of ext_malformed "results summary_tests_passed" config_always True ParseError]
    f m r1 r2 [of 0] r2 [of 7] r3 [of 2] r3 [of 0] r4 e1 e2
  show ?thesis by simp
qed

text \<open>
  Not every path writes a summary: when the test engine leaves a result file
  that does not parse, the run ends with the parse error after the collection,
  with no summary and no teardown.
\<close>

theorem summary_once_before_teardown_counterexample:
  "run ext_malformed config_on_fail False = (Inl ParseError, [Up 0, RunTests 1, CollectArtifacts 0]) \<and>
   (\<forall>s. WriteSummary s \<notin> set (snd (run ext_malformed config_on_fail False))) \<and>
   (\<forall>d. Down d \<notin> set (snd (run ext_malformed config_on_fail False)))"
  by (simp add: ext_malformed_def config_on_fail_def run_def generate_summary_def
        parse_junit_xml_def Let_def)

subsection \<open>The backends\<close>

text \<open>
  C2, as amended. Of the five operations of the capability set,
  \<^verbatim>\<open>AnsibleRunner\<close> provides all but \<^verbatim>\<open>logs\<close> and \<^verbatim>\<open>DockerRunner\<close> all but
  \<^verbatim>\<open>status\<close>. Both provide \<^verbatim>\<open>up\<close>, \<^verbatim>\<open>down\<close> and \<^verbatim>\<open>collect_artifacts\<close>, each
  with other parameters: \<^verbatim>\<open>AnsibleRunner\<close> takes the compose file and the run
  identifier on every call. \<^verbatim>\<open>up\<close> and \<^verbatim>\<open>down\<close> return an exit code in both
  classes; \<^verbatim>\<open>collect_artifacts\<close> returns one in \<^verbatim>\<open>AnsibleRunner\<close> and nothing in
  \<^verbatim>\<open>DockerRunner\<close>.
\<close>

theorem backend_capabilities:
  "filter (provides AnsibleRunner) capabilities = [''up'', ''down'', ''status'', ''collect_artifacts''] \<and>
   filter (provides DockerRunner) capabilities = [''up'', ''down'', ''logs'', ''collect_artifacts''] \<and>
   filter (\<lambda>m. provides AnsibleRunner m \<and> provides DockerRunner m) capabilities =
     [''up'', ''down'', ''collect_artifacts''] \<and>
   parameters AnsibleRunner ''up'' =
     Some [''compose_file'', ''run_id'', ''health_checks'', ''timeout_secs'', ''env_file''] \<and>
   parameters DockerRunner ''up'' = Some [] \<and>
   parameters AnsibleRunner ''down'' = Some [''compose_file'', ''run_id'', ''remove_volumes''] \<and>
   parameters DockerRunner ''down'' = Some [''remove_volumes''] \<and>
   parameters AnsibleRunner ''collect_artifacts'' =
     Some [''compose_file'', ''run_id'', ''artifacts_dir'', ''services''] \<and>
   parameters DockerRunner ''collect_artifacts'' = Some [''artifacts_dir'', ''services''] \<and>
   returns AnsibleRunner ''up'' = Some RInt \<and> returns DockerRunner ''up'' = Some RInt \<and>
   returns AnsibleRunner ''down'' = Some RInt \<and> returns DockerRunner ''down'' = Some RInt \<and>
   returns AnsibleRunner ''collect_artifacts'' = Some RInt \<and>
   returns DockerRunner ''collect_artifacts'' = Some RNone"
  by (simp add: provides_def capabilities_def methods_def parameters_def returns_def)

text \<open>
  Neither backend provides every operation of the capability set, and a call
  of a shared operation that fits one backend does not fit the other.
\<close>

theorem backend_capabilities_counterexample:
  "\<not> provides AnsibleRunner ''logs'' \<and> \<not> provides DockerRunner ''status'' \<and>
   \<not> (\<forall>b. \<forall>m \<in> set capabilities. provides b m) \<and>
   parameters AnsibleRunner ''up'' \<noteq> parameters DockerRunner ''up'' \<and>
   parameters AnsibleRunner ''down'' \<noteq> parameters DockerRunner ''down'' \<and>
   parameters AnsibleRunner ''collect_artifacts'' \<noteq> parameters DockerRunner ''collect_artifacts'' \<and>
   returns AnsibleRunner ''collect_artifacts'' \<noteq> returns DockerRunner ''collect_artifacts''"
proof -
  have a: "\<not> provides AnsibleRunner ''logs''" by (simp add: provides_def methods_def)
  have d: "\<not> provides DockerRunner ''status''" by (simp add: provides_def methods_def)
  have "''logs'' \<in> set capabilities" by (simp add: capabilities_def)
  with a have n: "\<not> (\<forall>b. \<forall>m \<in> set capabilities. provides b m)" by blast
  have p: "parameters AnsibleRunner ''up'' \<noteq> parameters DockerRunner ''up'' \<and>
   parameters AnsibleRunner ''down'' \<noteq> parameters DockerRunner ''down'' \<and>
   parameters AnsibleRunner ''collect_artifacts'' \<noteq> parameters DockerRunner ''collect_artifacts'' \<and>
   returns AnsibleRunner ''collect_artifacts'' \<noteq> returns DockerRunner ''collect_artifacts''"
    by (simp add: methods_def parameters_def returns_def)
  from a d n p show ?thesis by simp
qed

end
